theory Spec2Isabelle
  imports Main "HOL-Library.Sublist"
begin

section \<open>Python strings\<close>

text \<open>
  A Python \<^verbatim>\<open>str\<close> is a sequence of Unicode code points and \<^verbatim>\<open>len\<close> counts code
  points, so a string is modelled as a list of code points. ASCII text of the source is
  written with \<open>of_ascii\<close>; the other characters are given by their code point
  (the bullet is U+2022, the line feed is 10).
\<close>

type_synonym pystr = "nat list"

definition of_ascii :: "string \<Rightarrow> pystr" where
  "of_ascii s = map of_char s"

abbreviation NL :: nat where
  "NL \<equiv> 10"

text \<open>
  The case properties of a code point and its upper-case mapping come from the Unicode
  character database of the interpreter, which is not part of the repository. They are a
  parameter of the model: every theorem below holds for every such database.
\<close>

record ucd =
  cp_islower :: "nat \<Rightarrow> bool"
  cp_isupper :: "nat \<Rightarrow> bool"
  cp_istitle :: "nat \<Rightarrow> bool"
  cp_toupper :: "nat \<Rightarrow> pystr"

text \<open>
  The database restricted to the ASCII letters: it agrees with the interpreter on every
  code point below 128 and on every uncased code point, and is used to evaluate the model
  on inputs made of such code points.
\<close>

definition ascii_ucd :: ucd where
  "ascii_ucd = \<lparr>
     cp_islower = (\<lambda>c. 97 \<le> c \<and> c \<le> 122),
     cp_isupper = (\<lambda>c. 65 \<le> c \<and> c \<le> 90),
     cp_istitle = (\<lambda>c. False),
     cp_toupper = (\<lambda>c. if 97 \<le> c \<and> c \<le> 122 then [c - 32] else [c]) \<rparr>"

text \<open>\<^verbatim>\<open>str.isupper()\<close>: no lower-case or title-case character and at least one upper-case
  character; a string of one character is upper-case when that character is.\<close>

definition py_isupper :: "ucd \<Rightarrow> pystr \<Rightarrow> bool" where
  "py_isupper db s =
     (case s of
        [c] \<Rightarrow> cp_isupper db c
      | _ \<Rightarrow> list_all (\<lambda>c. \<not> cp_islower db c \<and> \<not> cp_istitle db c) s \<and> list_ex (cp_isupper db) s)"

text \<open>\<^verbatim>\<open>str.upper()\<close>: the full upper-case mapping of each character, in order.\<close>

definition py_upper :: "ucd \<Rightarrow> pystr \<Rightarrow> pystr" where
  "py_upper db s = concat (map (cp_toupper db) s)"

text \<open>The characters \<^verbatim>\<open>str.strip()\<close> removes: those for which \<^verbatim>\<open>str.isspace()\<close> holds.\<close>

definition py_isspace :: "nat \<Rightarrow> bool" where
  "py_isspace c =
     ((9 \<le> c \<and> c \<le> 13) \<or> (28 \<le> c \<and> c \<le> 32) \<or> c = 0x85 \<or> c = 0xA0 \<or> c = 0x1680 \<or>
      (0x2000 \<le> c \<and> c \<le> 0x200A) \<or> c = 0x2028 \<or> c = 0x2029 \<or> c = 0x202F \<or>
      c = 0x205F \<or> c = 0x3000)"

definition py_strip :: "pystr \<Rightarrow> pystr" where
  "py_strip s = rev (dropWhile py_isspace (rev (dropWhile py_isspace s)))"

text \<open>\<^verbatim>\<open>s.startswith(p)\<close> and \<^verbatim>\<open>p in s\<close>.\<close>

definition startswith :: "pystr \<Rightarrow> pystr \<Rightarrow> bool" where
  "startswith s p = prefix p s"

definition py_in :: "pystr \<Rightarrow> pystr \<Rightarrow> bool" where
  "py_in p s = sublist p s"

text \<open>\<^verbatim>\<open>s.split('\n')\<close>: never empty, the empty string gives one empty line.\<close>

primrec split_nl :: "pystr \<Rightarrow> pystr list" where
  "split_nl [] = [[]]"
| "split_nl (c # cs) =
     (if c = NL then [] # split_nl cs
      else (case split_nl cs of [] \<Rightarrow> [[c]] | l # ls \<Rightarrow> (c # l) # ls))"

text \<open>\<^verbatim>\<open>'\n'.join(ls)\<close>.\<close>

fun join_nl :: "pystr list \<Rightarrow> pystr" where
  "join_nl [] = []"
| "join_nl [l] = l"
| "join_nl (l # ls) = l @ NL # join_nl ls"

text \<open>\<^verbatim>\<open>s[:k]\<close>: a negative bound counts from the end of the string.\<close>

definition py_slice_to :: "int \<Rightarrow> pystr \<Rightarrow> pystr" where
  "py_slice_to k s = (if k < 0 then take (nat (int (length s) + k)) s else take (nat k) s)"

text \<open>\<^verbatim>\<open>str(n)\<close> for a natural number.\<close>

function py_str :: "nat \<Rightarrow> pystr" where
  "py_str n = (if n < 10 then [48 + n] else py_str (n div 10) @ [48 + n mod 10])"
  by pat_completeness auto
termination
  by (relation "measure id") auto

section \<open>The normalizer\<close>

text \<open>The dictionary \<^verbatim>\<open>current_slide\<close> with its three keys.\<close>

record slide =
  title :: pystr
  subheading :: pystr
  content :: "pystr list"

subsection \<open>\<^verbatim>\<open>truncate_structured_content\<close>\<close>

text \<open>The loop over the lines: it stops at the first line that does not fit.\<close>

fun truncate_loop :: "int \<Rightarrow> pystr list \<Rightarrow> pystr list \<Rightarrow> nat \<Rightarrow> pystr list" where
  "truncate_loop max_chars [] truncated total_length = truncated"
| "truncate_loop max_chars (line # lines) truncated total_length =
     (if int (total_length + length line) < max_chars
      then truncate_loop max_chars lines (truncated @ [line]) (total_length + length line + 1)
      else truncated)"

definition truncate_structured_content :: "pystr \<Rightarrow> int \<Rightarrow> pystr" where
  "truncate_structured_content text max_chars =
     (if int (length text) > max_chars then
        (let lines = split_nl text;
             truncated = truncate_loop max_chars lines [] 0;
             result = join_nl truncated
         in if py_strip result \<noteq> [] then result
            else py_slice_to (max_chars - 3) text @ of_ascii ''...'')
      else text)"

text \<open>The default value of \<^verbatim>\<open>max_chars\<close>, used by every call in the source.\<close>

abbreviation max_chars_default :: int where
  "max_chars_default \<equiv> 500"

subsection \<open>\<^verbatim>\<open>format_slide_content\<close>\<close>

definition filler_bullet :: pystr where
  "filler_bullet = [0x2022] @ of_ascii '' Additional detailed point for comprehensive coverage''"

text \<open>\<^verbatim>\<open>while len(content_lines) < 5: content_lines.append(...)\<close>\<close>

function pad_bullets :: "pystr list \<Rightarrow> pystr list" where
  "pad_bullets content_lines =
     (if length content_lines < 5 then pad_bullets (content_lines @ [filler_bullet])
      else content_lines)"
  by pat_completeness auto
termination
  by (relation "measure (\<lambda>content_lines. 5 - length content_lines)") auto

text \<open>
  The text before truncation, \<^verbatim>\<open>full_content\<close> in the source. The keys are always
  present, so the defaults of \<^verbatim>\<open>get\<close> are never used. The source appends the filler to
  the list held by the dictionary; the dictionary is not read again afterwards.
\<close>

definition full_content :: "slide \<Rightarrow> pystr" where
  "full_content slide_data =
     (let content_lines = pad_bullets (content slide_data);
          body = join_nl (take 6 content_lines)
      in title slide_data @ NL # subheading slide_data @ NL # body)"

definition format_slide_content :: "slide \<Rightarrow> pystr" where
  "format_slide_content slide_data =
     truncate_structured_content (full_content slide_data) max_chars_default"

subsection \<open>\<^verbatim>\<open>get_enhanced_fallback_content\<close>\<close>

definition get_enhanced_fallback_content :: "ucd \<Rightarrow> pystr \<Rightarrow> pystr list" where
  "get_enhanced_fallback_content db asanas_name =
    [
      of_ascii ''MASTERING '' @ py_upper db asanas_name @ NL #
      [0x1F3AF] @ of_ascii '' SUBHEADING: Transform Your Yoga Journey'' @ NL #
      [0x2022] @ of_ascii '' Foundational pose suitable for beginners to advanced practitioners'' @ NL #
      [0x2022] @ of_ascii '' Builds comprehensive strength, balance and body awareness'' @ NL #
      [0x2022] @ of_ascii '' Perfect integration into daily morning or evening routines'' @ NL #
      [0x2022] @ of_ascii '' Creates profound connection between physical and mental states'' @ NL #
      [0x2022] @ of_ascii '' Significantly enhances overall posture and spinal health'' @ NL #
      [0x2022] @ of_ascii '' Recommended by yoga therapists for holistic wellness approach'',

      of_ascii ''STEP-BY-STEP GUIDANCE'' @ NL #
      [0x1F4DD] @ of_ascii '' SUBHEADING: Perfect Your Alignment & Technique'' @ NL #
      [0x2022] @ of_ascii '' Start with proper foot placement and weight distribution'' @ NL #
      [0x2022] @ of_ascii '' Engage core muscles while maintaining relaxed breathing'' @ NL #
      [0x2022] @ of_ascii '' Align spine vertically with natural curvature maintained'' @ NL #
      [0x2022] @ of_ascii '' Position shoulders correctly away from ear position'' @ NL #
      [0x2022] @ of_ascii '' Coordinate subtle movements with breath patterns'' @ NL #
      [0x2022] @ of_ascii '' Maintain steady gaze and focused mental attention'',

      of_ascii ''BREATHING TECHNIQUES'' @ NL #
      [0x1F32C, 0xFE0F] @ of_ascii '' SUBHEADING: Master Conscious Breathing Patterns'' @ NL #
      [0x2022] @ of_ascii '' Practice deep diaphragmatic breathing throughout entire pose'' @ NL #
      [0x2022] @ of_ascii '' Coordinate inhalation with expansion and lifting movements'' @ NL #
      [0x2022] @ of_ascii '' Synchronize exhalation with grounding and stabilizing actions'' @ NL #
      [0x2022] @ of_ascii '' Maintain consistent, rhythmic breathing pattern always'' @ NL #
      [0x2022] @ of_ascii '' Incorporate advanced pranayama techniques when ready'' @ NL #
      [0x2022] @ of_ascii '' Use breath as anchor for mental focus and concentration'',

      of_ascii ''PHYSICAL BENEFITS'' @ NL #
      [0x1F4AA] @ of_ascii '' SUBHEADING: Transform Your Body Completely'' @ NL #
      [0x2022] @ of_ascii '' Dramatically improves flexibility and joint mobility'' @ NL #
      [0x2022] @ of_ascii '' Significantly strengthens core and postural muscles'' @ NL #
      [0x2022] @ of_ascii '' Enhances overall body alignment and spinal health'' @ NL #
      [0x2022] @ of_ascii '' Increases blood circulation and oxygen flow'' @ NL #
      [0x2022] @ of_ascii '' Improves balance and proprioception significantly'' @ NL #
      [0x2022] @ of_ascii '' Reduces risk of injury and chronic pain'',

      of_ascii ''MENTAL BENEFITS'' @ NL #
      [0x1F9E0] @ of_ascii '' SUBHEADING: Achieve Mental Clarity & Peace'' @ NL #
      [0x2022] @ of_ascii '' Effectively reduces stress and anxiety levels'' @ NL #
      [0x2022] @ of_ascii '' Improves mental focus and concentration abilities'' @ NL #
      [0x2022] @ of_ascii '' Enhances mind-body connection and self-awareness'' @ NL #
      [0x2022] @ of_ascii '' Promotes emotional balance and stability'' @ NL #
      [0x2022] @ of_ascii '' Increases mindfulness and present moment awareness'' @ NL #
      [0x2022] @ of_ascii '' Supports overall mental health and wellbeing'',

      of_ascii ''BEGINNER FRIENDLY'' @ NL #
      [0x1F31F] @ of_ascii '' SUBHEADING: Start Your Journey Confidently'' @ NL #
      [0x2022] @ of_ascii '' Simple modifications available for all ability levels'' @ NL #
      [0x2022] @ of_ascii '' Progressive learning path with clear milestones'' @ NL #
      [0x2022] @ of_ascii '' Patient, supportive approach to skill development'' @ NL #
      [0x2022] @ of_ascii '' Encouraging community and resources available'' @ NL #
      [0x2022] @ of_ascii '' Safe practice guidelines for new practitioners'' @ NL #
      [0x2022] @ of_ascii '' Celebrating small victories and progress'',

      of_ascii ''ADVANCED VARIATIONS'' @ NL #
      [0x1F680] @ of_ascii '' SUBHEADING: Challenge Your Practice Further'' @ NL #
      [0x2022] @ of_ascii '' Extended duration holds for strength building'' @ NL #
      [0x2022] @ of_ascii '' Complex variations for experienced practitioners'' @ NL #
      [0x2022] @ of_ascii '' Integration into flowing vinyasa sequences'' @ NL #
      [0x2022] @ of_ascii '' Advanced breathing and bandha applications'' @ NL #
      [0x2022] @ of_ascii '' Partner and assisted variations available'' @ NL #
      [0x2022] @ of_ascii '' Creative expressions and personal adaptations'',

      of_ascii ''SAFETY PRECAUTIONS'' @ NL #
      [0x26A0, 0xFE0F] @ of_ascii '' SUBHEADING: Practice Smart & Stay Safe'' @ NL #
      [0x2022] @ of_ascii '' Always listen to your body's signals and limitations'' @ NL #
      [0x2022] @ of_ascii '' Avoid pushing beyond comfortable range of motion'' @ NL #
      [0x2022] @ of_ascii '' Proper warm-up and preparation are absolutely essential'' @ NL #
      [0x2022] @ of_ascii '' Consult healthcare providers for existing conditions'' @ NL #
      [0x2022] @ of_ascii '' Use props and modifications when necessary'' @ NL #
      [0x2022] @ of_ascii '' Practice under qualified guidance when starting'',

      of_ascii ''DAILY PRACTICE ROUTINE'' @ NL #
      [0x1F4C5] @ of_ascii '' SUBHEADING: Build Consistent Habits'' @ NL #
      [0x2022] @ of_ascii '' Morning practice ideal for energy and focus'' @ NL #
      [0x2022] @ of_ascii '' 15-20 minutes daily for optimal results'' @ NL #
      [0x2022] @ of_ascii '' Gradual progression in difficulty and duration'' @ NL #
      [0x2022] @ of_ascii '' Regular self-assessment and adjustment'' @ NL #
      [0x2022] @ of_ascii '' Integration with other wellness practices'' @ NL #
      [0x2022] @ of_ascii '' Tracking progress and celebrating improvements'',

      of_ascii ''TEACHING METHODOLOGY'' @ NL #
      [0x1F468, 0x200D, 0x1F3EB] @ of_ascii '' SUBHEADING: Share Knowledge Effectively'' @ NL #
      [0x2022] @ of_ascii '' Clear, concise verbal cues and instructions'' @ NL #
      [0x2022] @ of_ascii '' Comprehensive visual demonstrations and examples'' @ NL #
      [0x2022] @ of_ascii '' Individualized adjustments and modifications'' @ NL #
      [0x2022] @ of_ascii '' Positive, encouraging feedback and reinforcement'' @ NL #
      [0x2022] @ of_ascii '' Safe and supportive learning environment'' @ NL #
      [0x2022] @ of_ascii '' Progressive skill building approach'',

      of_ascii ''PHILOSOPHICAL FOUNDATIONS'' @ NL #
      [0x1F4DA] @ of_ascii '' SUBHEADING: Deepen Your Understanding'' @ NL #
      [0x2022] @ of_ascii '' Ancient wisdom and modern science integration'' @ NL #
      [0x2022] @ of_ascii '' Holistic approach to health and wellness'' @ NL #
      [0x2022] @ of_ascii '' Connection to larger yoga philosophy system'' @ NL #
      [0x2022] @ of_ascii '' Spiritual dimensions of physical practice'' @ NL #
      [0x2022] @ of_ascii '' Ethical principles and lifestyle applications'' @ NL #
      [0x2022] @ of_ascii '' Personal transformation through consistent practice'',

      of_ascii ''MODERN APPLICATIONS'' @ NL #
      [0x1F4BC] @ of_ascii '' SUBHEADING: Integrate Into Daily Life'' @ NL #
      [0x2022] @ of_ascii '' Office chair variations for workplace wellness'' @ NL #
      [0x2022] @ of_ascii '' Quick 5-minute break routines for busy schedules'' @ NL #
      [0x2022] @ of_ascii '' Effective stress management tool for modern life'' @ NL #
      [0x2022] @ of_ascii '' Family and group practice opportunities'' @ NL #
      [0x2022] @ of_ascii '' Community building through shared practice'' @ NL #
      [0x2022] @ of_ascii '' Lifestyle integration for sustainable benefits'',

      of_ascii ''CONCLUSION & NEXT STEPS'' @ NL #
      [0x1F389] @ of_ascii '' SUBHEADING: Continue Your Growth Journey'' @ NL #
      [0x2022] @ of_ascii '' Consistent daily practice is absolutely essential'' @ NL #
      [0x2022] @ of_ascii '' Progressive learning path with clear milestones'' @ NL #
      [0x2022] @ of_ascii '' Enjoy the process and celebrate each achievement'' @ NL #
      [0x2022] @ of_ascii '' Share knowledge and experience with others'' @ NL #
      [0x2022] @ of_ascii '' Explore related poses and deeper practices'' @ NL #
      [0x2022] @ of_ascii '' Lifetime journey of learning and growth''
    ]"

subsection \<open>\<^verbatim>\<open>parse_structured_content\<close>\<close>

definition subheading_emojis :: "pystr list" where
  "subheading_emojis =
     [[0x1F3AF], [0x1F4DD], [0x1F32C, 0xFE0F], [0x1F4AA], [0x1F9E0], [0x1F31F], [0x1F680],
      [0x26A0, 0xFE0F], [0x1F4C5], [0x1F468, 0x200D, 0x1F3EB], [0x1F4DA], [0x1F4BC], [0x1F389]]"

text \<open>The three tests of the scan, each on a line.\<close>

definition is_title_line :: "ucd \<Rightarrow> pystr \<Rightarrow> bool" where
  "is_title_line db line =
     (startswith line (of_ascii ''SLIDE'') \<or> (py_isupper db line \<and> length line > 10))"

definition is_subheading_line :: "pystr \<Rightarrow> bool" where
  "is_subheading_line line =
     (py_in (of_ascii ''SUBHEADING:'') line \<or> list_ex (\<lambda>emoji. py_in emoji line) subheading_emojis)"

definition is_bullet_line :: "pystr \<Rightarrow> bool" where
  "is_bullet_line line = (startswith line [0x2022] \<or> startswith line (of_ascii ''-''))"

text \<open>The body of the loop: the state is the list of finished slides and the slide being built.\<close>

definition parse_step :: "ucd \<Rightarrow> pystr list \<times> slide \<Rightarrow> pystr \<Rightarrow> pystr list \<times> slide" where
  "parse_step db st raw =
     (let slides = fst st; current_slide = snd st; line = py_strip raw in
      if is_title_line db line then
        (if title current_slide \<noteq> [] then slides @ [format_slide_content current_slide] else slides,
         \<lparr>title = line, subheading = [], content = []\<rparr>)
      else if is_subheading_line line then
        (slides, current_slide\<lparr>subheading := line\<rparr>)
      else if is_bullet_line line then
        (slides, current_slide\<lparr>content := content current_slide @ [line]\<rparr>)
      else (slides, current_slide))"

fun parse_lines :: "ucd \<Rightarrow> pystr list \<Rightarrow> pystr list \<times> slide \<Rightarrow> pystr list \<times> slide" where
  "parse_lines db [] st = st"
| "parse_lines db (raw # lines) st = parse_lines db lines (parse_step db st raw)"

text \<open>The slide the scan starts from.\<close>

definition empty_slide :: slide where
  "empty_slide = \<lparr>title = [], subheading = [], content = []\<rparr>"

text \<open>The slides found in the input: the loop, then the last slide.\<close>

definition scan_slides :: "ucd \<Rightarrow> pystr \<Rightarrow> pystr list" where
  "scan_slides db text =
     (let st = parse_lines db (split_nl text) ([], empty_slide);
          slides = fst st; current_slide = snd st
      in if title current_slide \<noteq> [] then slides @ [format_slide_content current_slide] else slides)"

text \<open>
  \<^verbatim>\<open>while len(slides) < 13: slides.append(enhanced_slides[len(slides) % len(enhanced_slides)])\<close>.
  The bank has 13 entries, so the index is in range and nothing is divided by zero.
\<close>

function pad_slides :: "pystr list \<Rightarrow> pystr list \<Rightarrow> pystr list" where
  "pad_slides slides enhanced_slides =
     (if length slides < 13
      then pad_slides (slides @ [enhanced_slides ! (length slides mod length enhanced_slides)])
             enhanced_slides
      else slides)"
  by pat_completeness auto
termination
  by (relation "measure (\<lambda>(slides, enhanced_slides). 13 - length slides)") auto

definition parse_structured_content :: "ucd \<Rightarrow> pystr \<Rightarrow> pystr \<Rightarrow> pystr list" where
  "parse_structured_content db text asanas_name =
     (let slides = scan_slides db text;
          enhanced_slides = get_enhanced_fallback_content db asanas_name
      in take 13 (pad_slides slides enhanced_slides))"

section \<open>The export path\<close>

text \<open>
  The part of \<^verbatim>\<open>create_canva_style_powerpoint\<close> that reads a slide's text again: the
  first line is the title, the other lines are tested as they are (they are not stripped).
  The three local variables \<^verbatim>\<open>title\<close>, \<^verbatim>\<open>subheading\<close> and \<^verbatim>\<open>bullet_points\<close> are held in a
  \<open>slide\<close>, the bullets in its field \<open>content\<close>.
\<close>

definition export_step :: "slide \<Rightarrow> pystr \<Rightarrow> slide" where
  "export_step st line =
     (if py_strip line \<noteq> [] \<and> is_subheading_line line then st\<lparr>subheading := line\<rparr>
      else if py_strip line \<noteq> [] \<and> is_bullet_line line then st\<lparr>content := content st @ [line]\<rparr>
      else st)"

fun export_lines :: "pystr list \<Rightarrow> slide \<Rightarrow> slide" where
  "export_lines [] st = st"
| "export_lines (line # lines) st = export_lines lines (export_step st line)"

text \<open>\<open>i\<close> is the index of the slide; \<^verbatim>\<open>content_lines[1:]\<close> is \<open>drop 1\<close>.\<close>

definition export_parse :: "nat \<Rightarrow> pystr \<Rightarrow> slide" where
  "export_parse i text =
     (let content_lines = split_nl text;
          title0 = (case content_lines of
                      [] \<Rightarrow> of_ascii ''Slide '' @ py_str (i + 1)
                    | l # _ \<Rightarrow> l)
      in export_lines (drop 1 content_lines) \<lparr>title = title0, subheading = [], content = []\<rparr>)"

section \<open>Notions used by the properties\<close>

text \<open>The bullet lines of a slide's text: its lines after the title and the subheading.\<close>

definition bullet_lines :: "pystr \<Rightarrow> pystr list" where
  "bullet_lines s = drop 2 (split_nl s)"

text \<open>\<open>out\<close> is an initial segment of the lines of \<open>s\<close>, joined by line feeds.\<close>

definition whole_line_prefix :: "pystr \<Rightarrow> pystr \<Rightarrow> bool" where
  "whole_line_prefix out s = (out \<in> set (map join_nl (prefixes (split_nl s))))"

text \<open>A slide body of the bank: a title line, a subheading line with a marker, six bullet lines.\<close>

definition well_formed_body :: "pystr \<Rightarrow> bool" where
  "well_formed_body s =
     (let ls = split_nl s
      in length ls = 8 \<and> ls ! 0 \<noteq> [] \<and> is_subheading_line (ls ! 1) \<and>
         list_all is_bullet_line (drop 2 ls))"

text \<open>What the normalizer's scan holds for the slide being built after reading a text.\<close>

definition normalizer_scan :: "ucd \<Rightarrow> pystr \<Rightarrow> slide" where
  "normalizer_scan db text = snd (parse_lines db (split_nl text) ([], empty_slide))"

text \<open>
  The number of leading lines that truncation keeps: lines are taken from the front for as
  long as the lines taken so far, joined by line feeds, have fewer than \<open>m\<close> characters.
\<close>

definition fits :: "int \<Rightarrow> pystr list \<Rightarrow> nat \<Rightarrow> bool" where
  "fits m ls n = (int (length (join_nl (take n ls))) < m)"

definition kept_count :: "int \<Rightarrow> pystr list \<Rightarrow> nat" where
  "kept_count m ls = length (takeWhile (fits m ls) [1..<Suc (length ls)])"

text \<open>
  The slides the scan finishes, as the dictionaries they are when \<open>format_slide_content\<close>
  is called on them: the scan of \<open>parse_step\<close>, with each finished slide kept as it is.
\<close>

definition record_step :: "ucd \<Rightarrow> slide list \<times> slide \<Rightarrow> pystr \<Rightarrow> slide list \<times> slide" where
  "record_step db st raw =
     (let finished = fst st; current_slide = snd st; line = py_strip raw in
      if is_title_line db line then
        (if title current_slide \<noteq> [] then finished @ [current_slide] else finished,
         \<lparr>title = line, subheading = [], content = []\<rparr>)
      else if is_subheading_line line then
        (finished, current_slide\<lparr>subheading := line\<rparr>)
      else if is_bullet_line line then
        (finished, current_slide\<lparr>content := content current_slide @ [line]\<rparr>)
      else (finished, current_slide))"

fun record_lines :: "ucd \<Rightarrow> pystr list \<Rightarrow> slide list \<times> slide \<Rightarrow> slide list \<times> slide" where
  "record_lines db [] st = st"
| "record_lines db (raw # lines) st = record_lines db lines (record_step db st raw)"

definition scan_records :: "ucd \<Rightarrow> pystr \<Rightarrow> slide list" where
  "scan_records db text =
     (let st = record_lines db (split_nl text) ([], empty_slide);
          finished = fst st; current_slide = snd st
      in if title current_slide \<noteq> [] then finished @ [current_slide] else finished)"

text \<open>The invariant of the loop of \<open>truncate_structured_content\<close>.\<close>

definition loop_inv :: "int \<Rightarrow> pystr list \<Rightarrow> nat \<Rightarrow> bool" where
  "loop_inv m truncated tot =
     (if truncated = [] then tot = 0
      else tot = length (join_nl truncated) + 1 \<and> int (length (join_nl truncated)) < m)"

text \<open>No line feed in any field of a slide being built.\<close>

definition nl_free :: "slide \<Rightarrow> bool" where
  "nl_free sd =
     (NL \<notin> set (title sd) \<and> NL \<notin> set (subheading sd) \<and> list_all (\<lambda>b. NL \<notin> set b) (content sd))"

section \<open>Example inputs\<close>

text \<open>Five title lines, the first with one bullet.\<close>

definition five_titles :: pystr where
  "five_titles =
     of_ascii ''SLIDE 1: A'' @ NL # of_ascii ''- first point'' @ NL #
     of_ascii ''SLIDE 2: B'' @ NL # of_ascii ''SLIDE 3: C'' @ NL #
     of_ascii ''SLIDE 4: D'' @ NL # of_ascii ''SLIDE 5: E''"

text \<open>Fourteen title lines.\<close>

definition fourteen_titles :: pystr where
  "fourteen_titles =
     of_ascii ''SLIDE 1'' @ NL # of_ascii ''SLIDE 2'' @ NL # of_ascii ''SLIDE 3'' @ NL #
     of_ascii ''SLIDE 4'' @ NL # of_ascii ''SLIDE 5'' @ NL # of_ascii ''SLIDE 6'' @ NL #
     of_ascii ''SLIDE 7'' @ NL # of_ascii ''SLIDE 8'' @ NL # of_ascii ''SLIDE 9'' @ NL #
     of_ascii ''SLIDE 10'' @ NL # of_ascii ''SLIDE 11'' @ NL # of_ascii ''SLIDE 12'' @ NL #
     of_ascii ''SLIDE 13'' @ NL # of_ascii ''SLIDE 14''"

text \<open>One title and six bullets of 100 characters each: 625 characters once joined.\<close>

definition wordy_bullet :: pystr where
  "wordy_bullet =
     of_ascii ''- Start with the feet hip-width apart and spread your weight evenly on the four corners of each foot''"

definition wordy_slide :: pystr where
  "wordy_slide =
     of_ascii ''SLIDE 1: ALIGNMENT'' @ NL # wordy_bullet @ NL # wordy_bullet @ NL # wordy_bullet @ NL #
     wordy_bullet @ NL # wordy_bullet @ NL # wordy_bullet"

text \<open>A slide text as the normalizer writes it, and one with an indented bullet.\<close>

definition plain_slide :: pystr where
  "plain_slide =
     of_ascii ''SLIDE 1: A'' @ NL # [0x1F3AF] @ of_ascii '' SUBHEADING: x'' @ NL # of_ascii ''- first point''"

definition indented_slide :: pystr where
  "indented_slide = of_ascii ''SLIDE 1: A'' @ NL # of_ascii ''  - first point''"


section \<open>Evaluation\<close>

text \<open>The equations of the three loops are unfolded by hand, not by the simplifier.\<close>

declare pad_slides.simps [simp del]
declare pad_bullets.simps [simp del]
declare py_str.simps [simp del]

lemmas eval_simps = of_ascii_def py_strip_def py_isspace_def is_title_line_def startswith_def
  py_isupper_def ascii_ucd_def is_subheading_line_def py_in_def subheading_emojis_def
  sublist_Cons_right is_bullet_line_def

section \<open>Lists of lines\<close>

lemma join_nl_snoc: "join_nl (xs @ [l]) = (if xs = [] then l else join_nl xs @ NL # l)"
  by (induction xs rule: join_nl.induct) auto

lemma length_of_ascii [simp]: "length (of_ascii s) = length s"
  by (simp add: of_ascii_def)

lemma split_nl_not_Nil [simp]: "split_nl s \<noteq> []"
  by (induction s) (auto split: list.splits)

lemma split_nl_no_nl: "NL \<notin> set s \<Longrightarrow> split_nl s = [s]"
  by (induction s) auto

lemma split_nl_append:
  "NL \<notin> set a \<Longrightarrow> split_nl (a @ b) = (a @ hd (split_nl b)) # tl (split_nl b)"
proof (induction a)
  case Nil
  then show ?case by simp
next
  case (Cons c a)
  then show ?case by (auto split: list.splits)
qed

lemma split_nl_append_NL: "NL \<notin> set a \<Longrightarrow> split_nl (a @ NL # b) = a # split_nl b"
  by (simp add: split_nl_append)

lemma join_split: "join_nl (split_nl s) = s"
proof (induction s)
  case Nil
  then show ?case by simp
next
  case (Cons c s)
  show ?case
  proof (cases "c = NL")
    case True
    obtain l ls where "split_nl s = l # ls" by (cases "split_nl s") simp_all
    with Cons True show ?thesis by simp
  next
    case False
    obtain l ls where e: "split_nl s = l # ls" by (cases "split_nl s") simp_all
    with Cons False show ?thesis by (cases ls) auto
  qed
qed

lemma split_nl_lines_nl_free: "l \<in> set (split_nl s) \<Longrightarrow> NL \<notin> set l"
proof (induction s arbitrary: l)
  case Nil
  then show ?case by simp
next
  case (Cons c s)
  obtain l' ls where e: "split_nl s = l' # ls" by (cases "split_nl s") simp_all
  with Cons show ?case by (auto split: if_splits)
qed

lemma split_join:
  "ls \<noteq> [] \<Longrightarrow> list_all (\<lambda>l. NL \<notin> set l) ls \<Longrightarrow> split_nl (join_nl ls) = ls"
proof (induction ls rule: join_nl.induct)
  case 1
  then show ?case by simp
next
  case (2 l)
  then show ?case by (simp add: split_nl_no_nl)
next
  case (3 l v va)
  then show ?case by (simp add: split_nl_append_NL)
qed

lemma length_split_nl: "length (split_nl s) = Suc (count_list s NL)"
proof (induction s)
  case Nil
  then show ?case by simp
next
  case (Cons c s)
  obtain l' ls where e: "split_nl s = l' # ls" by (cases "split_nl s") simp_all
  with Cons show ?case by auto
qed

section \<open>The deck has 13 slides\<close>

lemma length_pad_slides: "length (pad_slides slides enhanced) = max 13 (length slides)"
proof (induction slides enhanced rule: pad_slides.induct)
  case (1 slides enhanced)
  show ?case
  proof (cases "length slides < 13")
    case True
    with 1 show ?thesis by (subst pad_slides.simps) simp
  next
    case False
    then show ?thesis by (subst pad_slides.simps) simp
  qed
qed

lemma length_parse:
  "length (parse_structured_content db text asanas_name) = 13"
proof -
  have "13 \<le> length (pad_slides (scan_slides db text) (get_enhanced_fallback_content db asanas_name))"
    by (simp only: length_pad_slides max.cobounded1)
  then show ?thesis
    by (simp only: parse_structured_content_def Let_def length_take min_absorb2)
qed

section \<open>The character budget\<close>

lemma truncate_loop_take:
  "\<exists>n. truncate_loop m lines truncated tot = truncated @ take n lines"
proof (induction lines arbitrary: truncated tot)
  case Nil
  then show ?case by simp
next
  case (Cons line lines)
  show ?case
  proof (cases "int (tot + length line) < m")
    case True
    from Cons.IH [of "truncated @ [line]" "tot + length line + 1"]
    obtain n where "truncate_loop m lines (truncated @ [line]) (tot + length line + 1)
        = (truncated @ [line]) @ take n lines" by blast
    with True have "truncate_loop m (line # lines) truncated tot = truncated @ take (Suc n) (line # lines)"
      by simp
    then show ?thesis by blast
  next
    case False
    then have "truncate_loop m (line # lines) truncated tot = truncated @ take 0 (line # lines)"
      by simp
    then show ?thesis by blast
  qed
qed

lemma truncate_loop_inv:
  "loop_inv m truncated tot \<Longrightarrow>
     truncate_loop m lines truncated tot = [] \<or>
     int (length (join_nl (truncate_loop m lines truncated tot))) < m"
proof (induction lines arbitrary: truncated tot)
  case Nil
  then show ?case by (auto simp: loop_inv_def split: if_splits)
next
  case (Cons line lines)
  show ?case
  proof (cases "int (tot + length line) < m")
    case True
    have "loop_inv m (truncated @ [line]) (tot + length line + 1)"
      using Cons.prems True by (auto simp: loop_inv_def join_nl_snoc split: if_splits)
    from Cons.IH [OF this] True show ?thesis by simp
  next
    case False
    then show ?thesis using Cons.prems by (auto simp: loop_inv_def split: if_splits)
  qed
qed

lemma truncate_loop_fits:
  "truncate_loop m lines [] 0 \<noteq> [] \<Longrightarrow> int (length (join_nl (truncate_loop m lines [] 0))) < m"
  using truncate_loop_inv [of m "[]" 0 lines] by (auto simp: loop_inv_def)

lemma length_truncate_le:
  "length (truncate_structured_content text 500) \<le> 500"
proof (cases "int (length text) > 500")
  case False
  then show ?thesis by (simp add: truncate_structured_content_def)
next
  case True
  let ?r = "join_nl (truncate_loop 500 (split_nl text) [] 0)"
  show ?thesis
  proof (cases "py_strip ?r \<noteq> []")
    case True
    then have "truncate_loop 500 (split_nl text) [] 0 \<noteq> []" by (auto simp: py_strip_def)
    from truncate_loop_fits [OF this] \<open>int (length text) > 500\<close> True show ?thesis
      by (simp add: truncate_structured_content_def Let_def)
  next
    case False
    with \<open>int (length text) > 500\<close> show ?thesis
      by (simp add: truncate_structured_content_def Let_def py_slice_to_def)
  qed
qed

lemma length_join_take_Suc:
  assumes "j < length ls"
  shows "length (join_nl (take (Suc j) ls)) =
           (if j = 0 then 0 else length (join_nl (take j ls)) + 1) + length (ls ! j)"
proof -
  have "take (Suc j) ls = take j ls @ [ls ! j]"
    using assms by (rule take_Suc_conv_app_nth)
  then show ?thesis using assms by (auto simp: join_nl_snoc)
qed

lemma truncate_loop_kept:
  assumes "j \<le> length ls"
  shows "truncate_loop m (drop j ls) (take j ls)
           (if j = 0 then 0 else length (join_nl (take j ls)) + 1)
         = take (j + length (takeWhile (fits m ls) [Suc j..<Suc (length ls)])) ls"
  using assms
proof (induction "length ls - j" arbitrary: j)
  case 0
  then have "j = length ls" by simp
  then show ?case by simp
next
  case (Suc d)
  then have lt: "j < length ls" by simp
  let ?tot = "if j = 0 then 0 else length (join_nl (take j ls)) + 1"
  have dr: "drop j ls = ls ! j # drop (Suc j) ls"
    using lt by (simp add: Cons_nth_drop_Suc)
  have up: "[Suc j..<Suc (length ls)] = Suc j # [Suc (Suc j)..<Suc (length ls)]"
    using lt by (simp add: upt_conv_Cons)
  have len: "length (join_nl (take (Suc j) ls)) = ?tot + length (ls ! j)"
    using length_join_take_Suc [OF lt] .
  have cond: "int (?tot + length (ls ! j)) < m \<longleftrightarrow> fits m ls (Suc j)"
    unfolding fits_def len ..
  show ?case
  proof (cases "fits m ls (Suc j)")
    case True
    have d: "d = length ls - Suc j" using Suc.hyps(2) by simp
    have le: "Suc j \<le> length ls" using lt by simp
    have tk: "take (Suc j) ls = take j ls @ [ls ! j]"
      using lt by (rule take_Suc_conv_app_nth)
    have "truncate_loop m (drop j ls) (take j ls) ?tot
        = truncate_loop m (drop (Suc j) ls) (take (Suc j) ls) (?tot + length (ls ! j) + 1)"
      unfolding dr tk using True cond by simp
    also have "?tot + length (ls ! j) + 1 = (if Suc j = 0 then 0 else length (join_nl (take (Suc j) ls)) + 1)"
      using len by simp
    also have "truncate_loop m (drop (Suc j) ls) (take (Suc j) ls)
          (if Suc j = 0 then 0 else length (join_nl (take (Suc j) ls)) + 1)
        = take (Suc j + length (takeWhile (fits m ls) [Suc (Suc j)..<Suc (length ls)])) ls"
      using Suc.hyps(1) [OF d le] .
    finally show ?thesis unfolding up using True by simp
  next
    case False
    then have "truncate_loop m (drop j ls) (take j ls) ?tot = take j ls"
      unfolding dr using cond by simp
    then show ?thesis unfolding up using False by simp
  qed
qed

lemma truncate_loop_kept_count:
  "truncate_loop m ls [] 0 = take (kept_count m ls) ls"
  using truncate_loop_kept [of 0 ls m] by (simp add: kept_count_def)

lemma whole_line_prefix_take: "whole_line_prefix (join_nl (take n (split_nl s))) s"
proof -
  have "take n (split_nl s) \<in> set (prefixes (split_nl s))" by (simp add: take_is_prefix)
  then have "join_nl (take n (split_nl s)) \<in> join_nl ` set (prefixes (split_nl s))"
    by (rule imageI)
  then show ?thesis by (simp only: whole_line_prefix_def set_map)
qed

text \<open>
  Claim C4, as amended. For every string, truncation to the default budget returns the
  string itself, that is all its lines, when it has at most 500 characters. Otherwise it
  keeps the leading lines taken for as long as the lines taken so far, joined by line
  feeds, have fewer than 500 characters: it returns these lines joined, an initial segment
  of the lines of the string, unless this text is blank, and only then the first 497
  characters of the string followed by three dots.
\<close>

theorem truncate_whole_lines_or_ellipsis:
  "truncate_structured_content s max_chars_default =
     (if length s \<le> 500 then join_nl (split_nl s)
      else if py_strip (join_nl (take (kept_count 500 (split_nl s)) (split_nl s))) \<noteq> []
           then join_nl (take (kept_count 500 (split_nl s)) (split_nl s))
           else take 497 s @ of_ascii ''...'') \<and>
   join_nl (split_nl s) = s \<and>
   whole_line_prefix (join_nl (take (kept_count 500 (split_nl s)) (split_nl s))) s"
proof -
  have "truncate_structured_content s max_chars_default =
     (if length s \<le> 500 then join_nl (split_nl s)
      else if py_strip (join_nl (take (kept_count 500 (split_nl s)) (split_nl s))) \<noteq> []
           then join_nl (take (kept_count 500 (split_nl s)) (split_nl s))
           else take 497 s @ of_ascii ''...'')"
    by (simp add: truncate_structured_content_def Let_def truncate_loop_kept_count join_split
        py_slice_to_def)
  then show ?thesis using join_split [of s] whole_line_prefix_take by blast
qed

lemma truncate_long_first_line:
  assumes "split_nl s = l # ls" and "500 \<le> length l" and "500 < length s"
  shows "truncate_structured_content s max_chars_default = take 497 s @ of_ascii ''...''"
proof -
  have "truncate_loop 500 (split_nl s) [] 0 = []"
    using assms by simp
  then show ?thesis using assms(3)
    by (simp add: truncate_structured_content_def Let_def py_slice_to_def py_strip_def)
qed

text \<open>
  Claim C4 as stated fails: a single line of 501 characters is cut inside the line, to
  497 characters and three dots, which is no initial segment of its lines.
\<close>

theorem truncate_single_long_line_counterexample:
  "\<not> whole_line_prefix (truncate_structured_content (replicate 501 65) max_chars_default)
       (replicate 501 65)"
proof -
  have sp: "split_nl (replicate 501 65) = [replicate 501 65]"
    by (rule split_nl_no_nl) simp
  have out: "truncate_structured_content (replicate 501 65) max_chars_default
      = replicate 497 65 @ of_ascii ''...''"
    using truncate_long_first_line [OF sp] by simp
  have ne: "replicate 497 (65::nat) @ of_ascii ''...'' \<noteq> replicate 501 65"
  proof
    assume e: "replicate 497 (65::nat) @ of_ascii ''...'' = replicate 501 65"
    from arg_cong [OF e, of length] show False by simp
  qed
  have ne2: "replicate 497 (65::nat) @ of_ascii ''...'' \<noteq> []" by (simp add: of_ascii_def)
  show ?thesis unfolding out whole_line_prefix_def sp using ne ne2 by simp
qed


text \<open>
  Claim C10. Truncation to the default budget of 500 characters is idempotent: the result
  of one application has at most 500 characters, so a second application returns it
  unchanged.
\<close>

theorem truncate_structured_content_idempotent:
  "truncate_structured_content (truncate_structured_content s max_chars_default) max_chars_default
     = truncate_structured_content s max_chars_default"
  using length_truncate_le [of s]
  by (subst truncate_structured_content_def) simp

section \<open>Padding from the bank\<close>

lemma pad_slides_drop:
  "length enhanced = 13 \<Longrightarrow> length slides \<le> 13 \<Longrightarrow>
   pad_slides slides enhanced = slides @ drop (length slides) enhanced"
proof (induction slides enhanced rule: pad_slides.induct)
  case (1 slides enhanced)
  show ?case
  proof (cases "length slides < 13")
    case True
    then have idx: "length slides mod length enhanced = length slides"
      using "1.prems" by simp
    have "pad_slides slides enhanced =
        pad_slides (slides @ [enhanced ! (length slides mod length enhanced)]) enhanced"
      using True by (subst pad_slides.simps) simp
    also have "\<dots> = (slides @ [enhanced ! length slides]) @ drop (Suc (length slides)) enhanced"
      using "1.IH" [OF True] "1.prems" True idx by simp
    also have "\<dots> = slides @ drop (length slides) enhanced"
      using True "1.prems" by (simp add: Cons_nth_drop_Suc)
    finally show ?thesis .
  next
    case False
    with "1.prems" show ?thesis by (subst pad_slides.simps) simp
  qed
qed

lemma length_fallback: "length (get_enhanced_fallback_content db asanas_name) = 13"
  by (simp add: get_enhanced_fallback_content_def)

lemma parse_short:
  assumes "length (scan_slides db text) \<le> 13"
  shows "parse_structured_content db text asanas_name =
           scan_slides db text @
           drop (length (scan_slides db text)) (get_enhanced_fallback_content db asanas_name)"
  using assms by (simp add: parse_structured_content_def Let_def pad_slides_drop length_fallback)

lemma parse_long:
  assumes "13 \<le> length (scan_slides db text)"
  shows "parse_structured_content db text asanas_name = take 13 (scan_slides db text)"
proof -
  have "pad_slides (scan_slides db text) (get_enhanced_fallback_content db asanas_name)
      = scan_slides db text"
    using assms by (subst pad_slides.simps) simp
  then show ?thesis by (simp add: parse_structured_content_def Let_def)
qed

text \<open>
  Claim C1. For every raw input text and every subject name, \<open>parse_structured_content\<close>
  returns exactly 13 slide texts. When the scan finds at most 13 slides, the output is
  these slides followed by the entries of the bank from that position on; when it finds 13
  or more, the output is the first 13 of them.
\<close>

theorem parse_structured_content_length:
  "length (parse_structured_content db text asanas_name) = 13 \<and>
   (length (scan_slides db text) \<le> 13 \<longrightarrow>
      parse_structured_content db text asanas_name =
        scan_slides db text @
        drop (length (scan_slides db text)) (get_enhanced_fallback_content db asanas_name)) \<and>
   (13 \<le> length (scan_slides db text) \<longrightarrow>
      parse_structured_content db text asanas_name = take 13 (scan_slides db text))"
  using length_parse parse_short parse_long by blast

theorem parse_structured_content_length_witness:
  "length (scan_slides ascii_ucd five_titles) \<le> 13 \<and>
   13 \<le> length (scan_slides ascii_ucd fourteen_titles) \<and>
   length (parse_structured_content ascii_ucd five_titles (of_ascii ''Tadasana'')) = 13 \<and>
   parse_structured_content ascii_ucd five_titles (of_ascii ''Tadasana'') =
     scan_slides ascii_ucd five_titles @
     drop (length (scan_slides ascii_ucd five_titles))
       (get_enhanced_fallback_content ascii_ucd (of_ascii ''Tadasana'')) \<and>
   length (parse_structured_content ascii_ucd fourteen_titles (of_ascii ''Tadasana'')) = 13 \<and>
   parse_structured_content ascii_ucd fourteen_titles (of_ascii ''Tadasana'') =
     take 13 (scan_slides ascii_ucd fourteen_titles)"
proof -
  have five: "length (scan_slides ascii_ucd five_titles) = 5"
    by (simp add: five_titles_def scan_slides_def parse_step_def empty_slide_def Let_def eval_simps)
  have fourteen: "length (scan_slides ascii_ucd fourteen_titles) = 14"
    by (simp add: fourteen_titles_def scan_slides_def parse_step_def empty_slide_def Let_def eval_simps)
  have a: "length (scan_slides ascii_ucd five_titles) \<le> 13" using five by simp
  have b: "13 \<le> length (scan_slides ascii_ucd fourteen_titles)" using fourteen by simp
  note t5 = parse_structured_content_length [of ascii_ucd five_titles "of_ascii ''Tadasana''"]
  note t14 = parse_structured_content_length [of ascii_ucd fourteen_titles "of_ascii ''Tadasana''"]
  from a b t5 t14 show ?thesis by blast
qed


lemma parse_step_no_title:
  "\<not> is_title_line db (py_strip raw) \<Longrightarrow>
   fst (parse_step db (slides, cur) raw) = slides \<and>
   title (snd (parse_step db (slides, cur) raw)) = title cur"
  by (simp add: parse_step_def Let_def)

lemma parse_lines_no_title:
  "list_all (\<lambda>l. \<not> is_title_line db (py_strip l)) lines \<Longrightarrow>
   fst (parse_lines db lines (slides, cur)) = slides \<and>
   title (snd (parse_lines db lines (slides, cur))) = title cur"
proof (induction lines arbitrary: cur)
  case Nil
  then show ?case by simp
next
  case (Cons raw lines)
  then have nt: "\<not> is_title_line db (py_strip raw)"
    and rest: "list_all (\<lambda>l. \<not> is_title_line db (py_strip l)) lines"
    by simp_all
  obtain cur' where step: "parse_step db (slides, cur) raw = (slides, cur')"
    using parse_step_no_title [OF nt, of slides cur] by (cases "parse_step db (slides, cur) raw") simp
  with parse_step_no_title [OF nt, of slides cur] have t: "title cur' = title cur" by simp
  from Cons.IH [OF rest, of cur'] step t show ?case by simp
qed

lemma parse_no_title:
  assumes "list_all (\<lambda>l. \<not> is_title_line db (py_strip l)) (split_nl text)"
  shows "parse_structured_content db text asanas_name = get_enhanced_fallback_content db asanas_name"
proof -
  have "scan_slides db text = []"
    using parse_lines_no_title [OF assms, of "[]" empty_slide]
    by (simp add: scan_slides_def Let_def empty_slide_def)
  then show ?thesis
    by (simp add: parse_structured_content_def Let_def pad_slides_drop length_fallback)
qed


text \<open>
  Claim C6. When no line of the input (stripped, as the scan reads it) passes the title
  test, the output is the bank for the subject: its 13 entries, in the bank's order.
\<close>

theorem no_title_gives_fallback:
  assumes "list_all (\<lambda>l. \<not> is_title_line db (py_strip l)) (split_nl text)"
  shows "parse_structured_content db text asanas_name = get_enhanced_fallback_content db asanas_name"
  using assms by (rule parse_no_title)

theorem no_title_gives_fallback_witness:
  "list_all (\<lambda>l. \<not> is_title_line ascii_ucd (py_strip l))
     (split_nl (of_ascii ''Some notes'' @ NL # of_ascii ''- slide one'' @ NL # of_ascii ''SUBHEADING: x'')) \<and>
   parse_structured_content ascii_ucd
     (of_ascii ''Some notes'' @ NL # of_ascii ''- slide one'' @ NL # of_ascii ''SUBHEADING: x'')
     (of_ascii ''Tadasana'')
   = get_enhanced_fallback_content ascii_ucd (of_ascii ''Tadasana'')"
proof -
  have h: "list_all (\<lambda>l. \<not> is_title_line ascii_ucd (py_strip l))
     (split_nl (of_ascii ''Some notes'' @ NL # of_ascii ''- slide one'' @ NL # of_ascii ''SUBHEADING: x''))"
    by (simp add: eval_simps)
  from h no_title_gives_fallback [OF h, of "of_ascii ''Tadasana''"] show ?thesis by (rule conjI)
qed

text \<open>
  Claim C7. When the scan finds \<open>k < 13\<close> slides, the output starts with these \<open>k\<close>
  slides and every later position \<open>i\<close> holds the bank's entry \<open>i mod 13\<close>: the padding
  is indexed by the length of the output so far.
\<close>

theorem padding_is_cyclic:
  assumes "length (scan_slides db text) = k" and "k < 13"
  shows "take k (parse_structured_content db text asanas_name) = scan_slides db text \<and>
         (\<forall>i. k \<le> i \<and> i < 13 \<longrightarrow>
            parse_structured_content db text asanas_name ! i =
            get_enhanced_fallback_content db asanas_name ! (i mod 13))"
proof -
  let ?fb = "get_enhanced_fallback_content db asanas_name"
  have out: "parse_structured_content db text asanas_name = scan_slides db text @ drop k ?fb"
    using assms by (simp add: parse_structured_content_def Let_def pad_slides_drop length_fallback)
  have "take k (scan_slides db text @ drop k ?fb) = scan_slides db text"
    using assms by simp
  moreover have "(scan_slides db text @ drop k ?fb) ! i = ?fb ! (i mod 13)" if "k \<le> i" "i < 13" for i
    using that assms by (simp add: nth_append length_fallback)
  ultimately show ?thesis unfolding out by blast
qed


theorem padding_is_cyclic_witness:
  "length (scan_slides ascii_ucd five_titles) = 5 \<and> (5::nat) < 13 \<and>
   take 5 (parse_structured_content ascii_ucd five_titles (of_ascii ''Tadasana''))
     = scan_slides ascii_ucd five_titles \<and>
   parse_structured_content ascii_ucd five_titles (of_ascii ''Tadasana'') ! 5
     = get_enhanced_fallback_content ascii_ucd (of_ascii ''Tadasana'') ! 5 \<and>
   parse_structured_content ascii_ucd five_titles (of_ascii ''Tadasana'') ! 12
     = get_enhanced_fallback_content ascii_ucd (of_ascii ''Tadasana'') ! 12"
proof -
  have h: "length (scan_slides ascii_ucd five_titles) = 5"
    by (simp add: five_titles_def scan_slides_def parse_step_def empty_slide_def Let_def eval_simps)
  have k: "(5::nat) < 13" by simp
  note c = padding_is_cyclic [OF h k, of "of_ascii ''Tadasana''"]
  from c have a: "take 5 (parse_structured_content ascii_ucd five_titles (of_ascii ''Tadasana''))
     = scan_slides ascii_ucd five_titles" by (rule conjunct1)
  from c have "parse_structured_content ascii_ucd five_titles (of_ascii ''Tadasana'') ! 5
     = get_enhanced_fallback_content ascii_ucd (of_ascii ''Tadasana'') ! (5 mod 13)" by simp
  then have b: "parse_structured_content ascii_ucd five_titles (of_ascii ''Tadasana'') ! 5
     = get_enhanced_fallback_content ascii_ucd (of_ascii ''Tadasana'') ! 5" by simp
  from c have "parse_structured_content ascii_ucd five_titles (of_ascii ''Tadasana'') ! 12
     = get_enhanced_fallback_content ascii_ucd (of_ascii ''Tadasana'') ! (12 mod 13)" by simp
  then have d: "parse_structured_content ascii_ucd five_titles (of_ascii ''Tadasana'') ! 12
     = get_enhanced_fallback_content ascii_ucd (of_ascii ''Tadasana'') ! 12" by simp
  from h k a b d show ?thesis by simp
qed

section \<open>Title detection\<close>

lemma not_title_no_new_slide:
  assumes "\<not> is_title_line db (py_strip raw)"
  shows "fst (parse_step db (slides, current_slide) raw) = slides \<and>
         title (snd (parse_step db (slides, current_slide) raw)) = title current_slide"
  using assms by (simp add: parse_step_def Let_def)

lemma lower_case_not_upper:
  assumes "list_ex (cp_islower db) line" and "10 < length line"
  shows "\<not> py_isupper db line"
proof -
  from assms(2) obtain a b ls where "line = a # b # ls"
    by (cases line; cases "tl line") auto
  then show ?thesis using assms(1)
    by (auto simp: py_isupper_def list_ex_iff list_all_iff)
qed

text \<open>
  Claim C5, as amended. The prefix test is case-sensitive. A line starts a new slide, with
  the stripped line as its title and the slide built so far finished first when it has a
  title, exactly when the stripped line begins with the upper-case token \<open>SLIDE\<close> or is
  upper-case and longer than 10 characters. In particular a line with a lower-case
  character that does not begin with the upper-case token starts nothing.
\<close>

theorem slide_prefix_starts_title:
  "(startswith (py_strip raw) (of_ascii ''SLIDE'') \<or>
      (py_isupper db (py_strip raw) \<and> 10 < length (py_strip raw)) \<longrightarrow>
      parse_step db (slides, current_slide) raw =
        (if title current_slide \<noteq> [] then slides @ [format_slide_content current_slide] else slides,
         \<lparr>title = py_strip raw, subheading = [], content = []\<rparr>)) \<and>
   (\<not> startswith (py_strip raw) (of_ascii ''SLIDE'') \<and>
      \<not> (py_isupper db (py_strip raw) \<and> 10 < length (py_strip raw)) \<longrightarrow>
      fst (parse_step db (slides, current_slide) raw) = slides \<and>
      title (snd (parse_step db (slides, current_slide) raw)) = title current_slide) \<and>
   (\<not> startswith (py_strip raw) (of_ascii ''SLIDE'') \<and> list_ex (cp_islower db) (py_strip raw) \<longrightarrow>
      fst (parse_step db (slides, current_slide) raw) = slides \<and>
      title (snd (parse_step db (slides, current_slide) raw)) = title current_slide)"
proof (intro conjI impI)
  assume "startswith (py_strip raw) (of_ascii ''SLIDE'') \<or>
      (py_isupper db (py_strip raw) \<and> 10 < length (py_strip raw))"
  then show "parse_step db (slides, current_slide) raw =
        (if title current_slide \<noteq> [] then slides @ [format_slide_content current_slide] else slides,
         \<lparr>title = py_strip raw, subheading = [], content = []\<rparr>)"
    by (simp add: parse_step_def Let_def is_title_line_def)
next
  assume a: "\<not> startswith (py_strip raw) (of_ascii ''SLIDE'') \<and>
      \<not> (py_isupper db (py_strip raw) \<and> 10 < length (py_strip raw))"
  then have "\<not> is_title_line db (py_strip raw)" by (simp add: is_title_line_def)
  from not_title_no_new_slide [OF this]
  show "fst (parse_step db (slides, current_slide) raw) = slides"
    and "title (snd (parse_step db (slides, current_slide) raw)) = title current_slide"
    by simp_all
next
  assume a: "\<not> startswith (py_strip raw) (of_ascii ''SLIDE'') \<and> list_ex (cp_islower db) (py_strip raw)"
  then have "\<not> is_title_line db (py_strip raw)"
    using lower_case_not_upper [of db "py_strip raw"] by (auto simp: is_title_line_def)
  from not_title_no_new_slide [OF this]
  show "fst (parse_step db (slides, current_slide) raw) = slides"
    and "title (snd (parse_step db (slides, current_slide) raw)) = title current_slide"
    by simp_all
qed

theorem slide_prefix_starts_title_witness:
  "startswith (py_strip (of_ascii ''SLIDE 14: SOMETHING'')) (of_ascii ''SLIDE'') \<and>
   parse_step ascii_ucd ([], empty_slide) (of_ascii ''SLIDE 14: SOMETHING'') =
     ([], \<lparr>title = of_ascii ''SLIDE 14: SOMETHING'', subheading = [], content = []\<rparr>) \<and>
   \<not> startswith (py_strip (of_ascii ''BREATHING TECHNIQUES'')) (of_ascii ''SLIDE'') \<and>
   py_isupper ascii_ucd (py_strip (of_ascii ''BREATHING TECHNIQUES'')) \<and>
   10 < length (py_strip (of_ascii ''BREATHING TECHNIQUES'')) \<and>
   parse_step ascii_ucd ([], empty_slide) (of_ascii ''BREATHING TECHNIQUES'') =
     ([], \<lparr>title = of_ascii ''BREATHING TECHNIQUES'', subheading = [], content = []\<rparr>) \<and>
   \<not> startswith (py_strip (of_ascii ''Slide 2: Breathing techniques'')) (of_ascii ''SLIDE'') \<and>
   \<not> (py_isupper ascii_ucd (py_strip (of_ascii ''Slide 2: Breathing techniques'')) \<and>
       10 < length (py_strip (of_ascii ''Slide 2: Breathing techniques''))) \<and>
   list_ex (cp_islower ascii_ucd) (py_strip (of_ascii ''Slide 2: Breathing techniques'')) \<and>
   fst (parse_step ascii_ucd ([], empty_slide) (of_ascii ''Slide 2: Breathing techniques'')) = [] \<and>
   title (snd (parse_step ascii_ucd ([], empty_slide) (of_ascii ''Slide 2: Breathing techniques''))) = []"
proof -
  have s1: "py_strip (of_ascii ''SLIDE 14: SOMETHING'') = of_ascii ''SLIDE 14: SOMETHING''"
    and s2: "py_strip (of_ascii ''BREATHING TECHNIQUES'') = of_ascii ''BREATHING TECHNIQUES''"
    by (simp_all add: eval_simps)
  have h1: "startswith (py_strip (of_ascii ''SLIDE 14: SOMETHING'')) (of_ascii ''SLIDE'')"
    by (simp add: eval_simps)
  have h2: "\<not> startswith (py_strip (of_ascii ''BREATHING TECHNIQUES'')) (of_ascii ''SLIDE'')"
    "py_isupper ascii_ucd (py_strip (of_ascii ''BREATHING TECHNIQUES''))"
    "10 < length (py_strip (of_ascii ''BREATHING TECHNIQUES''))"
    by (simp_all add: eval_simps)
  have h3: "\<not> startswith (py_strip (of_ascii ''Slide 2: Breathing techniques'')) (of_ascii ''SLIDE'')"
    "\<not> (py_isupper ascii_ucd (py_strip (of_ascii ''Slide 2: Breathing techniques'')) \<and>
       10 < length (py_strip (of_ascii ''Slide 2: Breathing techniques'')))"
    "list_ex (cp_islower ascii_ucd) (py_strip (of_ascii ''Slide 2: Breathing techniques''))"
    by (simp_all add: eval_simps)
  note t1 = slide_prefix_starts_title [of "of_ascii ''SLIDE 14: SOMETHING''" ascii_ucd "[]" empty_slide]
  note t2 = slide_prefix_starts_title [of "of_ascii ''BREATHING TECHNIQUES''" ascii_ucd "[]" empty_slide]
  note t3 = slide_prefix_starts_title [of "of_ascii ''Slide 2: Breathing techniques''" ascii_ucd "[]" empty_slide]
  have e: "title empty_slide = []" by (simp add: empty_slide_def)
  from t1 h1 have r1: "parse_step ascii_ucd ([], empty_slide) (of_ascii ''SLIDE 14: SOMETHING'') =
     ([], \<lparr>title = of_ascii ''SLIDE 14: SOMETHING'', subheading = [], content = []\<rparr>)"
    by (simp add: e s1)
  from t2 h2 have r2: "parse_step ascii_ucd ([], empty_slide) (of_ascii ''BREATHING TECHNIQUES'') =
     ([], \<lparr>title = of_ascii ''BREATHING TECHNIQUES'', subheading = [], content = []\<rparr>)"
    by (simp add: e s2)
  from t3 h3 have r3: "fst (parse_step ascii_ucd ([], empty_slide) (of_ascii ''Slide 2: Breathing techniques'')) = []"
    "title (snd (parse_step ascii_ucd ([], empty_slide) (of_ascii ''Slide 2: Breathing techniques''))) = []"
    by (simp_all add: e)
  from h1 r1 h2 r2 h3 r3 show ?thesis by blast
qed


text \<open>
  Claim C5 as stated fails: the line \<open>slide 1: x\<close> begins with the token in lower case
  and does not become a title.
\<close>

theorem lower_case_slide_counterexample:
  "title (snd (parse_step ascii_ucd ([], empty_slide) (of_ascii ''slide 1: x''))) \<noteq> of_ascii ''slide 1: x''"
  by (simp add: parse_step_def empty_slide_def Let_def eval_simps)


section \<open>The bank\<close>

lemma nl_in_of_ascii: "NL \<in> set (of_ascii s) \<longleftrightarrow> CHR 0x0A \<in> set s"
proof -
  have "(10::nat) = of_char (CHR 0x0A)" by simp
  then have "NL \<in> set (of_ascii s) \<longleftrightarrow> (of_char (CHR 0x0A) :: nat) \<in> of_char ` set s"
    by (simp only: of_ascii_def set_map)
  also have "\<dots> \<longleftrightarrow> CHR 0x0A \<in> set s"
    by (auto simp del: of_char_Char)
  finally show ?thesis .
qed

lemma of_ascii_eq_Nil [simp]: "of_ascii s = [] \<longleftrightarrow> s = []"
  by (simp add: of_ascii_def)

lemma length_py_upper_ascii: "length (py_upper ascii_ucd s) = length s"
  by (induction s) (simp_all add: py_upper_def ascii_ucd_def)

lemma is_bullet_line_bullet: "is_bullet_line ([0x2022] @ b)"
  by (simp add: is_bullet_line_def startswith_def)

lemma is_subheading_line_emoji: "e \<in> set subheading_emojis \<Longrightarrow> is_subheading_line (e @ x)"
proof -
  assume "e \<in> set subheading_emojis"
  moreover have "sublist e (e @ x)"
    unfolding sublist_def by (intro exI [of _ "[]"] exI [of _ x]) simp
  ultimately show ?thesis
    unfolding is_subheading_line_def py_in_def list_ex_iff by blast
qed

lemma emoji_nl_free: "e \<in> set subheading_emojis \<Longrightarrow> NL \<notin> set e"
  by (auto simp: subheading_emojis_def)

lemma body_well_formed:
  assumes t: "NL \<notin> set t" "t \<noteq> []"
    and e: "e \<in> set subheading_emojis" and x: "NL \<notin> set x"
    and b: "NL \<notin> set b1" "NL \<notin> set b2" "NL \<notin> set b3" "NL \<notin> set b4" "NL \<notin> set b5" "NL \<notin> set b6"
  shows "well_formed_body (t @ NL # e @ x @ NL # [0x2022] @ b1 @ NL # [0x2022] @ b2 @ NL #
           [0x2022] @ b3 @ NL # [0x2022] @ b4 @ NL # [0x2022] @ b5 @ NL # [0x2022] @ b6)"
proof -
  have ex: "NL \<notin> set (e @ x)" using emoji_nl_free [OF e] x by simp
  have bs: "NL \<notin> set ([0x2022] @ b1)" "NL \<notin> set ([0x2022] @ b2)" "NL \<notin> set ([0x2022] @ b3)"
    "NL \<notin> set ([0x2022] @ b4)" "NL \<notin> set ([0x2022] @ b5)" "NL \<notin> set ([0x2022] @ b6)"
    using b by simp_all
  have "split_nl (t @ NL # (e @ x) @ NL # ([0x2022] @ b1) @ NL # ([0x2022] @ b2) @ NL #
           ([0x2022] @ b3) @ NL # ([0x2022] @ b4) @ NL # ([0x2022] @ b5) @ NL # ([0x2022] @ b6))
        = [t, e @ x, [0x2022] @ b1, [0x2022] @ b2, [0x2022] @ b3, [0x2022] @ b4, [0x2022] @ b5, [0x2022] @ b6]"
    by (simp only: split_nl_append_NL [OF t(1)] split_nl_append_NL [OF ex] split_nl_append_NL [OF bs(1)]
        split_nl_append_NL [OF bs(2)] split_nl_append_NL [OF bs(3)] split_nl_append_NL [OF bs(4)]
        split_nl_append_NL [OF bs(5)] split_nl_no_nl [OF bs(6)])
  then have "split_nl (t @ NL # e @ x @ NL # [0x2022] @ b1 @ NL # [0x2022] @ b2 @ NL #
           [0x2022] @ b3 @ NL # [0x2022] @ b4 @ NL # [0x2022] @ b5 @ NL # [0x2022] @ b6)
        = [t, e @ x, [0x2022] @ b1, [0x2022] @ b2, [0x2022] @ b3, [0x2022] @ b4, [0x2022] @ b5, [0x2022] @ b6]"
    by (simp only: append_assoc)
  then show ?thesis
    using t(2) is_subheading_line_emoji [OF e, of x]
    by (simp add: well_formed_body_def Let_def is_bullet_line_bullet del: append_Cons append_Nil)
qed

lemma fallback_rest_well_formed:
  "list_all well_formed_body (tl (get_enhanced_fallback_content db asanas_name))"
  apply (simp only: get_enhanced_fallback_content_def list.sel list.pred_inject)
  apply (intro conjI TrueI)
             apply (rule body_well_formed; simp add: nl_in_of_ascii subheading_emojis_def)+
  done

lemma fallback_well_formed:
  assumes "NL \<notin> set (py_upper db asanas_name)"
  shows "list_all well_formed_body (get_enhanced_fallback_content db asanas_name)"
proof -
  have t0: "NL \<notin> set (of_ascii ''MASTERING '' @ py_upper db asanas_name)"
    using assms by (simp add: nl_in_of_ascii)
  have "well_formed_body ((of_ascii ''MASTERING '' @ py_upper db asanas_name) @ NL #
      [0x1F3AF] @ of_ascii '' SUBHEADING: Transform Your Yoga Journey'' @ NL #
      [0x2022] @ of_ascii '' Foundational pose suitable for beginners to advanced practitioners'' @ NL #
      [0x2022] @ of_ascii '' Builds comprehensive strength, balance and body awareness'' @ NL #
      [0x2022] @ of_ascii '' Perfect integration into daily morning or evening routines'' @ NL #
      [0x2022] @ of_ascii '' Creates profound connection between physical and mental states'' @ NL #
      [0x2022] @ of_ascii '' Significantly enhances overall posture and spinal health'' @ NL #
      [0x2022] @ of_ascii '' Recommended by yoga therapists for holistic wellness approach'')"
    by (rule body_well_formed [OF t0]) (simp_all add: nl_in_of_ascii subheading_emojis_def)
  then have e0: "well_formed_body (get_enhanced_fallback_content db asanas_name ! 0)"
    by (simp only: get_enhanced_fallback_content_def nth_Cons_0 append_assoc)
  have rest: "list_all well_formed_body (tl (get_enhanced_fallback_content db asanas_name))"
    by (rule fallback_rest_well_formed)
  from e0 rest show ?thesis
    by (simp add: get_enhanced_fallback_content_def)
qed


lemma count_list_of_ascii: "count_list (of_ascii s) NL = count_list s (CHR 0x0A)"
proof -
  have "(10::nat) = of_char (CHR 0x0A)" by simp
  then have "count_list (of_ascii s) NL = count_list (map of_char s) (of_char (CHR 0x0A) :: nat)"
    by (simp only: of_ascii_def)
  also have "\<dots> = count_list s (CHR 0x0A)"
    by (induction s) (simp_all del: of_char_Char)
  finally show ?thesis .
qed

text \<open>
  Claim C8, as amended. For every subject name whose upper-case form has no line feed, the
  bank has exactly 13 entries and each entry is made of exactly eight lines: a title line
  that is not empty, a subheading line that passes the subheading test, and six lines that
  pass the bullet test. The bank is a function of the subject name and of nothing else.
\<close>

theorem fallback_bank_shape:
  assumes "NL \<notin> set (py_upper db asanas_name)"
  shows "length (get_enhanced_fallback_content db asanas_name) = 13 \<and>
         list_all well_formed_body (get_enhanced_fallback_content db asanas_name)"
  using fallback_well_formed [OF assms] length_fallback by simp

theorem fallback_bank_shape_witness:
  "NL \<notin> set (py_upper ascii_ucd (of_ascii ''Tadasana'')) \<and>
   length (get_enhanced_fallback_content ascii_ucd (of_ascii ''Tadasana'')) = 13 \<and>
   list_all well_formed_body (get_enhanced_fallback_content ascii_ucd (of_ascii ''Tadasana''))"
proof -
  have h: "NL \<notin> set (py_upper ascii_ucd (of_ascii ''Tadasana''))"
    by (simp add: py_upper_def ascii_ucd_def of_ascii_def)
  from h fallback_bank_shape [OF h] show ?thesis by simp
qed

text \<open>
  Claim C8 as stated fails for a subject name with a line feed: for the name made of
  \<open>a\<close>, a line feed and the bullet line \<open>b\<close>, the first entry has nine lines, the second
  of them a bullet line.
\<close>

theorem subject_with_line_break_counterexample:
  "\<not> list_all well_formed_body (get_enhanced_fallback_content ascii_ucd [97, NL, 0x2022, 32, 98])"
proof -
  have "length (split_nl (get_enhanced_fallback_content ascii_ucd [97, NL, 0x2022, 32, 98] ! 0)) = 9"
    by (simp add: get_enhanced_fallback_content_def length_split_nl count_list_of_ascii
        py_upper_def ascii_ucd_def)
  then have "\<not> well_formed_body (get_enhanced_fallback_content ascii_ucd [97, NL, 0x2022, 32, 98] ! 0)"
    by (simp add: well_formed_body_def Let_def)
  then show ?thesis
    by (simp add: get_enhanced_fallback_content_def)
qed


section \<open>Every slide of the output\<close>

lemma fallback_lengths:
  "map length (get_enhanced_fallback_content db asanas_name) =
     [430 + length (py_upper db asanas_name), 403, 429, 363, 354, 360, 346, 374, 331, 340, 348, 346, 351]"
  by (simp add: get_enhanced_fallback_content_def)

lemma fallback_length_le:
  assumes "s \<in> set (get_enhanced_fallback_content db asanas_name)"
    and "length (py_upper db asanas_name) \<le> 70"
  shows "length s \<le> 500"
proof -
  from assms(1) have "length s \<in> set (map length (get_enhanced_fallback_content db asanas_name))"
    by simp
  then show ?thesis using assms(2) unfolding fallback_lengths by auto
qed

lemma set_py_strip: "set (py_strip l) \<subseteq> set l"
proof -
  have "set (py_strip l) \<subseteq> set (dropWhile py_isspace l)"
    unfolding py_strip_def using set_dropWhileD [of _ py_isspace "rev (dropWhile py_isspace l)"]
    by auto
  also have "\<dots> \<subseteq> set l" using set_dropWhileD [of _ py_isspace l] by auto
  finally show ?thesis .
qed

lemma parse_step_inv:
  assumes "list_all Q slides" and "nl_free cur" and "NL \<notin> set raw"
    and fmt: "\<And>sd. nl_free sd \<Longrightarrow> Q (format_slide_content sd)"
  shows "list_all Q (fst (parse_step db (slides, cur) raw)) \<and> nl_free (snd (parse_step db (slides, cur) raw))"
proof -
  have s: "NL \<notin> set (py_strip raw)" using assms(3) set_py_strip [of raw] by auto
  show ?thesis using assms(1,2) s fmt [OF assms(2)]
    by (simp add: parse_step_def Let_def nl_free_def)
qed

lemma parse_lines_inv:
  assumes "list_all Q slides" and "nl_free cur" and "list_all (\<lambda>l. NL \<notin> set l) lines"
    and fmt: "\<And>sd. nl_free sd \<Longrightarrow> Q (format_slide_content sd)"
  shows "list_all Q (fst (parse_lines db lines (slides, cur))) \<and> nl_free (snd (parse_lines db lines (slides, cur)))"
  using assms(1,2,3)
proof (induction lines arbitrary: slides cur)
  case Nil
  then show ?case by simp
next
  case (Cons raw lines)
  from Cons.prems have r: "NL \<notin> set raw" and rest: "list_all (\<lambda>l. NL \<notin> set l) lines" by simp_all
  obtain slides' cur' where st: "parse_step db (slides, cur) raw = (slides', cur')"
    by (cases "parse_step db (slides, cur) raw")
  from parse_step_inv [OF Cons.prems(1,2) r fmt, of db] st
  have "list_all Q slides'" "nl_free cur'" by simp_all
  from Cons.IH [OF this rest] st show ?case by simp
qed

lemma scan_slides_inv:
  assumes fmt: "\<And>sd. nl_free sd \<Longrightarrow> Q (format_slide_content sd)"
  shows "list_all Q (scan_slides db text)"
proof -
  have l: "list_all (\<lambda>l. NL \<notin> set l) (split_nl text)"
    by (simp add: list_all_iff split_nl_lines_nl_free)
  have e: "nl_free empty_slide" by (simp add: nl_free_def empty_slide_def)
  from parse_lines_inv [of Q "[]" empty_slide "split_nl text" db, OF _ e l fmt]
  have "list_all Q (fst (parse_lines db (split_nl text) ([], empty_slide)))"
    and "nl_free (snd (parse_lines db (split_nl text) ([], empty_slide)))" by simp_all
  with fmt show ?thesis by (simp add: scan_slides_def Let_def)
qed

lemma set_parse_subset:
  "set (parse_structured_content db text asanas_name)
     \<subseteq> set (scan_slides db text) \<union> set (get_enhanced_fallback_content db asanas_name)"
proof (cases "length (scan_slides db text) \<le> 13")
  case True
  then have "parse_structured_content db text asanas_name =
      take 13 (scan_slides db text @ drop (length (scan_slides db text)) (get_enhanced_fallback_content db asanas_name))"
    by (simp add: parse_structured_content_def Let_def pad_slides_drop length_fallback)
  then show ?thesis
    using set_take_subset [of 13 "scan_slides db text @ drop (length (scan_slides db text)) (get_enhanced_fallback_content db asanas_name)"]
      set_drop_subset [of "length (scan_slides db text)" "get_enhanced_fallback_content db asanas_name"]
    by auto
next
  case False
  then have "pad_slides (scan_slides db text) (get_enhanced_fallback_content db asanas_name) = scan_slides db text"
    by (subst pad_slides.simps) simp
  then show ?thesis
    using set_take_subset [of 13 "scan_slides db text"]
    by (auto simp: parse_structured_content_def Let_def)
qed

text \<open>
  Claim C3, as amended. Every slide of the output has at most 500 characters when the
  upper-case form of the subject name has at most 70 characters: a slide built from the
  input is truncated to the budget, an entry of the bank is not truncated and its first
  entry has 430 characters besides the subject name.
\<close>

theorem slide_length_le_500:
  assumes "s \<in> set (parse_structured_content db text asanas_name)"
    and "length (py_upper db asanas_name) \<le> 70"
  shows "length s \<le> 500"
proof -
  have "list_all (\<lambda>s. length s \<le> 500) (scan_slides db text)"
    by (rule scan_slides_inv) (simp add: format_slide_content_def length_truncate_le)
  then have "\<forall>s \<in> set (scan_slides db text). length s \<le> 500" by (simp add: list_all_iff)
  with assms set_parse_subset [of db "text" asanas_name] fallback_length_le [OF _ assms(2)]
  show ?thesis by blast
qed

theorem slide_length_le_500_witness:
  "parse_structured_content ascii_ucd five_titles (of_ascii ''Tadasana'') ! 0
     \<in> set (parse_structured_content ascii_ucd five_titles (of_ascii ''Tadasana'')) \<and>
   length (py_upper ascii_ucd (of_ascii ''Tadasana'')) \<le> 70 \<and>
   length (parse_structured_content ascii_ucd five_titles (of_ascii ''Tadasana'') ! 0) \<le> 500"
proof -
  have m: "parse_structured_content ascii_ucd five_titles (of_ascii ''Tadasana'') ! 0
     \<in> set (parse_structured_content ascii_ucd five_titles (of_ascii ''Tadasana''))"
    by (rule nth_mem) (simp add: length_parse)
  have n: "length (py_upper ascii_ucd (of_ascii ''Tadasana'')) \<le> 70"
    by (simp add: length_py_upper_ascii)
  from m n slide_length_le_500 [OF m n] show ?thesis by simp
qed

text \<open>
  Claim C3 as stated fails: with an input without titles and a subject name of 71
  characters, the first slide of the output is the bank's first entry, of 501 characters.
\<close>

theorem long_subject_counterexample:
  "\<not> length (parse_structured_content ascii_ucd [] (replicate 71 65) ! 0) \<le> 500"
proof -
  have "list_all (\<lambda>l. \<not> is_title_line ascii_ucd (py_strip l)) (split_nl [])"
    by (simp add: eval_simps)
  then have "parse_structured_content ascii_ucd [] (replicate 71 65)
      = get_enhanced_fallback_content ascii_ucd (replicate 71 65)"
    by (rule parse_no_title)
  moreover have "length (get_enhanced_fallback_content ascii_ucd (replicate 71 65) ! 0)
      = map length (get_enhanced_fallback_content ascii_ucd (replicate 71 65)) ! 0"
    by (simp add: length_fallback)
  ultimately have "length (parse_structured_content ascii_ucd [] (replicate 71 65) ! 0) = 501"
    by (simp add: fallback_lengths length_py_upper_ascii)
  then show ?thesis by simp
qed



section \<open>The bullets of a slide\<close>

lemma pad_bullets_eq: "pad_bullets xs = xs @ replicate (5 - length xs) filler_bullet"
proof (induction xs rule: pad_bullets.induct)
  case (1 content_lines)
  show ?case
  proof (cases "length content_lines < 5")
    case True
    then have "5 - length content_lines = Suc (5 - Suc (length content_lines))" by simp
    with 1 [OF True] True show ?thesis
      by (subst pad_bullets.simps) (simp add: replicate_app_Cons_same)
  next
    case False
    then show ?thesis by (subst pad_bullets.simps) simp
  qed
qed

lemma filler_nl_free: "NL \<notin> set filler_bullet"
  by (simp add: filler_bullet_def nl_in_of_ascii)

lemma full_content_lines:
  assumes "nl_free sd"
  shows "split_nl (full_content sd) = title sd # subheading sd # take 6 (pad_bullets (content sd))"
    and "5 \<le> length (take 6 (pad_bullets (content sd)))"
    and "length (take 6 (pad_bullets (content sd))) \<le> 6"
proof -
  let ?bs = "take 6 (pad_bullets (content sd))"
  show len: "5 \<le> length ?bs" by (simp add: pad_bullets_eq)
  show "length ?bs \<le> 6" by simp
  from len have ne: "?bs \<noteq> []" by auto
  have "list_all (\<lambda>b. NL \<notin> set b) (pad_bullets (content sd))"
    using assms filler_nl_free by (auto simp: pad_bullets_eq nl_free_def list_all_iff)
  then have "list_all (\<lambda>b. NL \<notin> set b) ?bs"
    using set_take_subset [of 6 "pad_bullets (content sd)"] by (auto simp: list_all_iff)
  from split_join [OF ne this] assms
  show "split_nl (full_content sd) = title sd # subheading sd # ?bs"
    by (simp add: full_content_def Let_def nl_free_def split_nl_append_NL)
qed

lemma count_list_take_le: "count_list (take n xs) x \<le> count_list xs x"
proof -
  have "count_list (take n xs @ drop n xs) x = count_list (take n xs) x + count_list (drop n xs) x"
    by (rule count_list_append)
  then have "count_list xs x = count_list (take n xs) x + count_list (drop n xs) x"
    by (simp only: append_take_drop_id)
  then show ?thesis by simp
qed

lemma length_split_truncate_le:
  "length (split_nl (truncate_structured_content t max_chars_default)) \<le> length (split_nl t)"
proof (cases "int (length t) > 500")
  case False
  then show ?thesis by (simp add: truncate_structured_content_def)
next
  case True
  let ?t = "truncate_loop 500 (split_nl t) [] 0"
  show ?thesis
  proof (cases "py_strip (join_nl ?t) \<noteq> []")
    case nonblank: True
    then have ne: "?t \<noteq> []" by (auto simp: py_strip_def)
    obtain n where n: "?t = take n (split_nl t)"
      using truncate_loop_take [of 500 "split_nl t" "[]" 0] by auto
    have "list_all (\<lambda>l. NL \<notin> set l) ?t"
      unfolding n using set_take_subset [of n "split_nl t"] split_nl_lines_nl_free [of _ t]
      by (auto simp: list_all_iff)
    from split_join [OF ne this] have "length (split_nl (join_nl ?t)) = length (take n (split_nl t))"
      using n by simp
    with True nonblank show ?thesis
      by (simp add: truncate_structured_content_def Let_def)
  next
    case False
    have "count_list (take 497 t @ of_ascii ''...'') NL \<le> count_list t NL"
      using count_list_take_le [of 497 t NL]
      by (simp add: count_list_append count_list_of_ascii)
    with True False show ?thesis
      by (simp add: truncate_structured_content_def Let_def py_slice_to_def length_split_nl)
  qed
qed

lemma fallback_bullets:
  assumes "NL \<notin> set (py_upper db asanas_name)"
    and "s \<in> set (get_enhanced_fallback_content db asanas_name)"
  shows "length (bullet_lines s) = 6"
proof -
  from fallback_well_formed [OF assms(1)] assms(2) have "well_formed_body s"
    by (simp add: list_all_iff)
  then show ?thesis by (simp add: well_formed_body_def bullet_lines_def Let_def)
qed

lemma fallback_bullets_rest:
  assumes "0 < i" and "i < 13"
  shows "length (bullet_lines (get_enhanced_fallback_content db asanas_name ! i)) = 6"
proof -
  let ?b = "get_enhanced_fallback_content db asanas_name"
  have "?b ! i = tl ?b ! (i - 1)"
    using assms by (simp add: nth_tl length_fallback)
  moreover have "tl ?b ! (i - 1) \<in> set (tl ?b)"
    using assms by (simp add: length_fallback)
  ultimately have "well_formed_body (?b ! i)"
    using fallback_rest_well_formed [of db asanas_name] by (simp add: list_all_iff)
  then show ?thesis by (simp add: well_formed_body_def bullet_lines_def Let_def)
qed

lemma parse_step_records:
  "parse_step db (map format_slide_content finished, cur) raw =
     (map format_slide_content (fst (record_step db (finished, cur) raw)),
      snd (record_step db (finished, cur) raw))"
  by (simp add: parse_step_def record_step_def Let_def)

lemma parse_lines_records:
  "parse_lines db lines (map format_slide_content finished, cur) =
     (map format_slide_content (fst (record_lines db lines (finished, cur))),
      snd (record_lines db lines (finished, cur)))"
proof (induction lines arbitrary: finished cur)
  case Nil
  then show ?case by simp
next
  case (Cons raw lines)
  obtain finished' cur' where st: "record_step db (finished, cur) raw = (finished', cur')"
    by (cases "record_step db (finished, cur) raw")
  then have "parse_step db (map format_slide_content finished, cur) raw
      = (map format_slide_content finished', cur')"
    by (simp add: parse_step_records)
  with Cons.IH [of finished' cur'] st show ?case by simp
qed

lemma scan_slides_records:
  "scan_slides db text = map format_slide_content (scan_records db text)"
  using parse_lines_records [of db "split_nl text" "[]" empty_slide]
  by (simp add: scan_slides_def scan_records_def Let_def)

lemma record_step_nl_free:
  assumes "list_all nl_free finished" and "nl_free cur" and "NL \<notin> set raw"
  shows "list_all nl_free (fst (record_step db (finished, cur) raw)) \<and>
         nl_free (snd (record_step db (finished, cur) raw))"
proof -
  have s: "NL \<notin> set (py_strip raw)" using assms(3) set_py_strip [of raw] by auto
  show ?thesis using assms(1,2) s
    by (simp add: record_step_def Let_def nl_free_def)
qed

lemma record_lines_nl_free:
  assumes "list_all nl_free finished" and "nl_free cur" and "list_all (\<lambda>l. NL \<notin> set l) lines"
  shows "list_all nl_free (fst (record_lines db lines (finished, cur))) \<and>
         nl_free (snd (record_lines db lines (finished, cur)))"
  using assms
proof (induction lines arbitrary: finished cur)
  case Nil
  then show ?case by simp
next
  case (Cons raw lines)
  from Cons.prems have r: "NL \<notin> set raw" and rest: "list_all (\<lambda>l. NL \<notin> set l) lines" by simp_all
  obtain finished' cur' where st: "record_step db (finished, cur) raw = (finished', cur')"
    by (cases "record_step db (finished, cur) raw")
  from record_step_nl_free [OF Cons.prems(1,2) r, of db] st
  have "list_all nl_free finished'" "nl_free cur'" by simp_all
  from Cons.IH [OF this rest] st show ?case by simp
qed

lemma scan_records_nl_free: "list_all nl_free (scan_records db text)"
proof -
  have l: "list_all (\<lambda>l. NL \<notin> set l) (split_nl text)"
    by (simp add: list_all_iff split_nl_lines_nl_free)
  have e: "nl_free empty_slide" by (simp add: nl_free_def empty_slide_def)
  from record_lines_nl_free [of "[]" empty_slide "split_nl text" db, OF _ e l]
  show ?thesis by (simp add: scan_records_def Let_def)
qed

lemma parse_nth_scanned:
  assumes "i < 13" and "i < length (scan_slides db text)"
  shows "parse_structured_content db text asanas_name ! i = scan_slides db text ! i"
proof (cases "length (scan_slides db text) \<le> 13")
  case True
  from parse_short [OF True] assms(2) show ?thesis by (simp add: nth_append)
next
  case False
  then have "13 \<le> length (scan_slides db text)" by simp
  from parse_long [OF this] assms(1) show ?thesis by simp
qed

lemma parse_nth_padded:
  assumes "i < 13" and "length (scan_slides db text) \<le> i"
  shows "parse_structured_content db text asanas_name ! i =
           get_enhanced_fallback_content db asanas_name ! i"
proof -
  have "length (scan_slides db text) \<le> 13" using assms by simp
  from parse_short [OF this] assms show ?thesis
    by (simp add: nth_append length_fallback)
qed

lemma full_content_bullets:
  assumes "nl_free sd"
  shows "bullet_lines (full_content sd) =
           take 6 (content sd @ replicate (5 - length (content sd)) filler_bullet)"
    and "5 \<le> length (bullet_lines (full_content sd))"
    and "length (bullet_lines (full_content sd)) \<le> 6"
  using full_content_lines [OF assms] by (simp_all add: bullet_lines_def pad_bullets_eq)

text \<open>
  Claim C2, as amended. A slide of the output that comes from the input is the truncation
  of its own joined text, whose bullet lines are the slide's bullets padded with the
  filler to 5 and cut to the first 6, in order. Such a slide has at most 6 bullet lines;
  when its joined text has at most 500 characters it is that text and has 5 to 6 bullet
  lines, and otherwise the truncation to the character budget, which comes last, may drop
  bullet lines again. A slide that comes from the bank is the bank's entry at its own
  position and has 6 bullet lines; for the bank's first entry this needs a subject name
  without line feed in its upper-case form.
\<close>

theorem output_bullet_count:
  assumes "i < 13"
  shows
    "(i < length (scan_records db text) \<longrightarrow>
       parse_structured_content db text asanas_name ! i =
         truncate_structured_content (full_content (scan_records db text ! i)) max_chars_default \<and>
       bullet_lines (full_content (scan_records db text ! i)) =
         take 6 (content (scan_records db text ! i) @
                 replicate (5 - length (content (scan_records db text ! i))) filler_bullet) \<and>
       5 \<le> length (bullet_lines (full_content (scan_records db text ! i))) \<and>
       length (bullet_lines (parse_structured_content db text asanas_name ! i)) \<le> 6 \<and>
       (length (full_content (scan_records db text ! i)) \<le> 500 \<longrightarrow>
          parse_structured_content db text asanas_name ! i = full_content (scan_records db text ! i) \<and>
          5 \<le> length (bullet_lines (parse_structured_content db text asanas_name ! i)))) \<and>
    (length (scan_records db text) \<le> i \<longrightarrow>
       parse_structured_content db text asanas_name ! i =
         get_enhanced_fallback_content db asanas_name ! i \<and>
       (0 < i \<or> NL \<notin> set (py_upper db asanas_name) \<longrightarrow>
          length (bullet_lines (parse_structured_content db text asanas_name ! i)) = 6))"
proof (cases "i < length (scan_records db text)")
  case True
  let ?r = "scan_records db text ! i"
  let ?o = "parse_structured_content db text asanas_name ! i"
  have nf: "nl_free ?r" using scan_records_nl_free [of db "text"] True by (simp add: list_all_iff)
  have len: "i < length (scan_slides db text)" using True by (simp add: scan_slides_records)
  have o: "?o = truncate_structured_content (full_content ?r) max_chars_default"
    using parse_nth_scanned [OF assms len] True
    by (simp add: scan_slides_records format_slide_content_def)
  note fb = full_content_bullets [OF nf]
  have "length (split_nl ?o) \<le> length (split_nl (full_content ?r))"
    unfolding o by (rule length_split_truncate_le)
  then have le: "length (bullet_lines ?o) \<le> 6"
    using fb(3) by (simp add: bullet_lines_def)
  have within: "?o = full_content ?r \<and> 5 \<le> length (bullet_lines ?o)"
    if "length (full_content ?r) \<le> 500"
  proof -
    from that have "?o = full_content ?r"
      unfolding o by (simp add: truncate_structured_content_def)
    with fb(2) show ?thesis by simp
  qed
  from True le o fb(1,2) within show ?thesis by simp
next
  case False
  let ?o = "parse_structured_content db text asanas_name ! i"
  from False have k: "length (scan_slides db text) \<le> i" by (simp add: scan_slides_records)
  have o: "?o = get_enhanced_fallback_content db asanas_name ! i"
    using parse_nth_padded [OF assms k] .
  have six: "length (bullet_lines ?o) = 6" if "0 < i \<or> NL \<notin> set (py_upper db asanas_name)"
  proof (cases "0 < i")
    case True
    from fallback_bullets_rest [OF True assms] show ?thesis unfolding o .
  next
    case False
    with that have nl: "NL \<notin> set (py_upper db asanas_name)" by simp
    have "get_enhanced_fallback_content db asanas_name ! i
        \<in> set (get_enhanced_fallback_content db asanas_name)"
      using assms by (simp add: length_fallback)
    from fallback_bullets [OF nl this] show ?thesis unfolding o .
  qed
  from False o six show ?thesis by simp
qed

lemma length_join_nl: "length (join_nl ls) = sum_list (map length ls) + (length ls - 1)"
  by (induction ls rule: join_nl.induct) simp_all

lemma length_filler_bullet: "length filler_bullet = 54"
  by (simp add: filler_bullet_def)

lemma scan_records_five_titles:
  "scan_records ascii_ucd five_titles =
     [\<lparr>title = of_ascii ''SLIDE 1: A'', subheading = [], content = [of_ascii ''- first point'']\<rparr>,
      \<lparr>title = of_ascii ''SLIDE 2: B'', subheading = [], content = []\<rparr>,
      \<lparr>title = of_ascii ''SLIDE 3: C'', subheading = [], content = []\<rparr>,
      \<lparr>title = of_ascii ''SLIDE 4: D'', subheading = [], content = []\<rparr>,
      \<lparr>title = of_ascii ''SLIDE 5: E'', subheading = [], content = []\<rparr>]"
  by (simp add: five_titles_def scan_records_def record_step_def empty_slide_def Let_def eval_simps)

theorem output_bullet_count_witness:
  "(0::nat) < 13 \<and> (5::nat) < 13 \<and>
   0 < length (scan_records ascii_ucd five_titles) \<and>
   length (full_content (scan_records ascii_ucd five_titles ! 0)) \<le> 500 \<and>
   length (scan_records ascii_ucd five_titles) \<le> 5 \<and>
   length (scan_records ascii_ucd []) \<le> 0 \<and>
   NL \<notin> set (py_upper ascii_ucd (of_ascii ''Tadasana'')) \<and>
   5 \<le> length (bullet_lines (parse_structured_content ascii_ucd five_titles (of_ascii ''Tadasana'') ! 0)) \<and>
   length (bullet_lines (parse_structured_content ascii_ucd five_titles (of_ascii ''Tadasana'') ! 0)) \<le> 6 \<and>
   length (bullet_lines (parse_structured_content ascii_ucd five_titles (of_ascii ''Tadasana'') ! 5)) = 6 \<and>
   length (bullet_lines (parse_structured_content ascii_ucd [] (of_ascii ''Tadasana'') ! 0)) = 6"
proof -
  have h: "NL \<notin> set (py_upper ascii_ucd (of_ascii ''Tadasana''))"
    by (simp add: py_upper_def ascii_ucd_def of_ascii_def)
  have i0: "(0::nat) < 13" and i5: "(5::nat) < 13" by simp_all
  have a: "0 < length (scan_records ascii_ucd five_titles)"
    and c: "length (scan_records ascii_ucd five_titles) \<le> 5"
    by (simp_all add: scan_records_five_titles)
  have b: "length (full_content (scan_records ascii_ucd five_titles ! 0)) \<le> 500"
    by (simp add: scan_records_five_titles full_content_def Let_def pad_bullets_eq
        length_join_nl length_filler_bullet sum_list_replicate)
  have d: "length (scan_records ascii_ucd []) \<le> 0"
    by (simp add: scan_records_def record_step_def empty_slide_def Let_def eval_simps)
  note t0 = output_bullet_count [OF i0, of ascii_ucd five_titles "of_ascii ''Tadasana''"]
  note t5 = output_bullet_count [OF i5, of ascii_ucd five_titles "of_ascii ''Tadasana''"]
  note e0 = output_bullet_count [OF i0, of ascii_ucd "[]" "of_ascii ''Tadasana''"]
  from t0 a b have r0:
    "5 \<le> length (bullet_lines (parse_structured_content ascii_ucd five_titles (of_ascii ''Tadasana'') ! 0))"
    "length (bullet_lines (parse_structured_content ascii_ucd five_titles (of_ascii ''Tadasana'') ! 0)) \<le> 6"
    by blast+
  have p5: "(0::nat) < 5" by simp
  from t5 c p5 have r5:
    "length (bullet_lines (parse_structured_content ascii_ucd five_titles (of_ascii ''Tadasana'') ! 5)) = 6"
    by blast
  from e0 d h have r6:
    "length (bullet_lines (parse_structured_content ascii_ucd [] (of_ascii ''Tadasana'') ! 0)) = 6"
    by blast
  from h i0 i5 a b c d r0 r5 r6 show ?thesis by blast
qed


lemma py_strip_eq_Nil: "py_strip s = [] \<Longrightarrow> list_all py_isspace s"
proof -
  assume "py_strip s = []"
  then have "dropWhile py_isspace (rev (dropWhile py_isspace s)) = []"
    by (simp add: py_strip_def)
  then have "\<forall>c \<in> set (dropWhile py_isspace s). py_isspace c"
    by (simp add: dropWhile_eq_Nil_conv)
  then have "dropWhile py_isspace s = []"
    by (metis hd_dropWhile list.set_sel(1))
  then show ?thesis by (simp add: dropWhile_eq_Nil_conv list_all_iff)
qed

lemma wordy_bullet_facts:
  "py_strip wordy_bullet = wordy_bullet"
  "\<not> is_title_line ascii_ucd wordy_bullet"
  "\<not> is_subheading_line wordy_bullet"
  "is_bullet_line wordy_bullet"
  "NL \<notin> set wordy_bullet"
  "length wordy_bullet = 100"
  by (simp_all add: wordy_bullet_def eval_simps)

lemma wordy_title_facts:
  "py_strip (of_ascii ''SLIDE 1: ALIGNMENT'') = of_ascii ''SLIDE 1: ALIGNMENT''"
  "is_title_line ascii_ucd (of_ascii ''SLIDE 1: ALIGNMENT'')"
  "NL \<notin> set (of_ascii ''SLIDE 1: ALIGNMENT'')"
  "\<not> list_all py_isspace (of_ascii ''SLIDE 1: ALIGNMENT'' @ r)"
  by (simp_all add: eval_simps)

lemma scan_wordy_slide:
  "scan_slides ascii_ucd wordy_slide =
     [format_slide_content \<lparr>title = of_ascii ''SLIDE 1: ALIGNMENT'', subheading = [],
        content = [wordy_bullet, wordy_bullet, wordy_bullet, wordy_bullet, wordy_bullet, wordy_bullet]\<rparr>]"
  by (simp add: wordy_slide_def scan_slides_def Let_def empty_slide_def parse_step_def
      split_nl_append_NL split_nl_no_nl wordy_bullet_facts wordy_title_facts)

lemma format_wordy_slide:
  "format_slide_content \<lparr>title = of_ascii ''SLIDE 1: ALIGNMENT'', subheading = [],
        content = [wordy_bullet, wordy_bullet, wordy_bullet, wordy_bullet, wordy_bullet, wordy_bullet]\<rparr>
   = join_nl [of_ascii ''SLIDE 1: ALIGNMENT'', [], wordy_bullet, wordy_bullet, wordy_bullet, wordy_bullet]"
proof -
  let ?sd = "\<lparr>title = of_ascii ''SLIDE 1: ALIGNMENT'', subheading = [],
        content = [wordy_bullet, wordy_bullet, wordy_bullet, wordy_bullet, wordy_bullet, wordy_bullet]\<rparr>"
  have nf: "nl_free ?sd" by (simp add: nl_free_def wordy_bullet_facts wordy_title_facts)
  have sp: "split_nl (full_content ?sd) = [of_ascii ''SLIDE 1: ALIGNMENT'', [], wordy_bullet, wordy_bullet,
      wordy_bullet, wordy_bullet, wordy_bullet, wordy_bullet]"
    using full_content_lines(1) [OF nf] by (simp add: pad_bullets_eq)
  have len: "length (full_content ?sd) = 625"
    by (simp add: full_content_def Let_def pad_bullets_eq wordy_bullet_facts)
  have loop: "truncate_loop 500 (split_nl (full_content ?sd)) [] 0
      = [of_ascii ''SLIDE 1: ALIGNMENT'', [], wordy_bullet, wordy_bullet, wordy_bullet, wordy_bullet]"
    unfolding sp by (simp add: wordy_bullet_facts)
  have nb: "py_strip (join_nl [of_ascii ''SLIDE 1: ALIGNMENT'', [], wordy_bullet, wordy_bullet, wordy_bullet, wordy_bullet]) \<noteq> []"
    using py_strip_eq_Nil wordy_title_facts(4) by fastforce
  show ?thesis
    unfolding format_slide_content_def truncate_structured_content_def Let_def loop
    using len nb by simp
qed

lemma bank_first_entry_bullets:
  "length (bullet_lines (get_enhanced_fallback_content ascii_ucd [97, NL, 0x2022, 32, 98] ! 0)) = 7"
  by (simp add: bullet_lines_def get_enhanced_fallback_content_def length_split_nl count_list_of_ascii
      py_upper_def ascii_ucd_def)

lemma long_bullets_kept:
  "length (bullet_lines (parse_structured_content ascii_ucd wordy_slide (of_ascii ''Tadasana'') ! 0)) = 4"
proof -
  have "parse_structured_content ascii_ucd wordy_slide (of_ascii ''Tadasana'') ! 0
      = join_nl [of_ascii ''SLIDE 1: ALIGNMENT'', [], wordy_bullet, wordy_bullet, wordy_bullet, wordy_bullet]"
    by (simp add: parse_structured_content_def Let_def scan_wordy_slide format_wordy_slide
        pad_slides_drop length_fallback del: join_nl.simps)
  moreover have "split_nl (join_nl [of_ascii ''SLIDE 1: ALIGNMENT'', [], wordy_bullet, wordy_bullet, wordy_bullet, wordy_bullet])
      = [of_ascii ''SLIDE 1: ALIGNMENT'', [], wordy_bullet, wordy_bullet, wordy_bullet, wordy_bullet]"
    by (rule split_join) (simp_all add: wordy_bullet_facts wordy_title_facts)
  ultimately show ?thesis by (simp add: bullet_lines_def)
qed

text \<open>
  Claim C2 as stated fails in both directions. A slide with six bullets of 100 characters
  is joined to 625 characters, and truncation keeps the title, the empty subheading and
  four bullets. With no title in the input and a subject name that holds a line feed and
  a bullet line, the first slide is the bank's first entry, with 7 lines after its first
  two.
\<close>

theorem long_bullets_counterexample:
  "\<not> 5 \<le> length (bullet_lines (parse_structured_content ascii_ucd wordy_slide (of_ascii ''Tadasana'') ! 0)) \<and>
   \<not> length (bullet_lines (parse_structured_content ascii_ucd [] [97, NL, 0x2022, 32, 98] ! 0)) \<le> 6"
proof -
  have "list_all (\<lambda>l. \<not> is_title_line ascii_ucd (py_strip l)) (split_nl [])"
    by (simp add: eval_simps)
  then have "parse_structured_content ascii_ucd [] [97, NL, 0x2022, 32, 98]
      = get_enhanced_fallback_content ascii_ucd [97, NL, 0x2022, 32, 98]"
    by (rule parse_no_title)
  then have "length (bullet_lines (parse_structured_content ascii_ucd [] [97, NL, 0x2022, 32, 98] ! 0)) = 7"
    using bank_first_entry_bullets by simp
  with long_bullets_kept show ?thesis by simp
qed


section \<open>The export path and the normalizer\<close>

lemma not_subheading_Nil: "\<not> is_subheading_line []"
  by (simp add: eval_simps)

lemma not_bullet_Nil: "\<not> is_bullet_line []"
  by (simp add: eval_simps)

lemma parse_step_export_step:
  assumes "py_strip l = l" and "\<not> is_title_line db l"
  shows "parse_step db (slides, cur) l = (slides, export_step cur l)"
  using assms not_subheading_Nil not_bullet_Nil
  by (auto simp: parse_step_def export_step_def Let_def)

lemma parse_lines_export_lines:
  assumes "list_all (\<lambda>l. py_strip l = l \<and> \<not> is_title_line db l) rest"
  shows "parse_lines db rest (slides, cur) = (slides, export_lines rest cur)"
  using assms
proof (induction rest arbitrary: cur)
  case Nil
  then show ?case by simp
next
  case (Cons l rest)
  then have "py_strip l = l" "\<not> is_title_line db l"
    and r: "list_all (\<lambda>l. py_strip l = l \<and> \<not> is_title_line db l) rest" by simp_all
  then have "parse_step db (slides, cur) l = (slides, export_step cur l)"
    by (simp add: parse_step_export_step)
  with Cons.IH [OF r] show ?case by simp
qed

text \<open>
  Claim C9, as amended. For a slide text whose first line is a stripped title line and
  whose other lines are stripped and are no title lines, the title, the subheading and
  the bullets read at export are those the normalizer's scan holds after the same lines.
  At export the first line is the title without any test, and the other lines are tested
  as they are, not stripped.
\<close>

theorem export_agrees_on_stripped_lines:
  assumes "split_nl text = t # rest" and "py_strip t = t" and "is_title_line db t"
    and "list_all (\<lambda>l. py_strip l = l \<and> \<not> is_title_line db l) rest"
  shows "export_parse i text = normalizer_scan db text"
proof -
  have "parse_step db ([], empty_slide) t = ([], \<lparr>title = t, subheading = [], content = []\<rparr>)"
    using assms(2,3) by (simp add: parse_step_def Let_def empty_slide_def)
  then have "normalizer_scan db text = export_lines rest \<lparr>title = t, subheading = [], content = []\<rparr>"
    using assms(1) parse_lines_export_lines [OF assms(4)]
    by (simp add: normalizer_scan_def)
  moreover have "export_parse i text = export_lines rest \<lparr>title = t, subheading = [], content = []\<rparr>"
    using assms(1) by (simp add: export_parse_def Let_def)
  ultimately show ?thesis by simp
qed

lemma split_plain_slide:
  "split_nl plain_slide = of_ascii ''SLIDE 1: A'' # [[0x1F3AF] @ of_ascii '' SUBHEADING: x'', of_ascii ''- first point'']"
  by (simp add: plain_slide_def split_nl_append split_nl_append_NL split_nl_no_nl nl_in_of_ascii
      del: append_Cons append_Nil)

theorem export_agrees_on_stripped_lines_witness:
  "split_nl plain_slide = of_ascii ''SLIDE 1: A'' # [[0x1F3AF] @ of_ascii '' SUBHEADING: x'', of_ascii ''- first point''] \<and>
   py_strip (of_ascii ''SLIDE 1: A'') = of_ascii ''SLIDE 1: A'' \<and>
   is_title_line ascii_ucd (of_ascii ''SLIDE 1: A'') \<and>
   list_all (\<lambda>l. py_strip l = l \<and> \<not> is_title_line ascii_ucd l)
     [[0x1F3AF] @ of_ascii '' SUBHEADING: x'', of_ascii ''- first point''] \<and>
   export_parse 0 plain_slide = normalizer_scan ascii_ucd plain_slide"
proof -
  have a: "py_strip (of_ascii ''SLIDE 1: A'') = of_ascii ''SLIDE 1: A''"
    by (simp add: eval_simps)
  have b: "is_title_line ascii_ucd (of_ascii ''SLIDE 1: A'')"
    by (simp add: eval_simps)
  have c: "list_all (\<lambda>l. py_strip l = l \<and> \<not> is_title_line ascii_ucd l)
     [[0x1F3AF] @ of_ascii '' SUBHEADING: x'', of_ascii ''- first point'']"
    by (simp add: eval_simps)
  from export_agrees_on_stripped_lines [OF split_plain_slide a b c, of 0] split_plain_slide a b c
  show ?thesis by (intro conjI)
qed

text \<open>
  Claim C9 as stated fails: a bullet line with leading blanks is a bullet for the
  normalizer, which strips the line first, and is ignored at export.
\<close>

theorem indented_bullet_counterexample:
  "export_parse 0 indented_slide \<noteq> normalizer_scan ascii_ucd indented_slide"
proof -
  have sp: "split_nl indented_slide = [of_ascii ''SLIDE 1: A'', of_ascii ''  - first point'']"
    by (simp add: indented_slide_def split_nl_append_NL split_nl_no_nl nl_in_of_ascii)
  have e: "content (export_parse 0 indented_slide) = []"
    unfolding export_parse_def Let_def sp by (simp add: export_step_def eval_simps)
  have n: "content (normalizer_scan ascii_ucd indented_slide) = [of_ascii ''- first point'']"
    unfolding normalizer_scan_def sp by (simp add: parse_step_def Let_def empty_slide_def eval_simps)
  show ?thesis
  proof
    assume "export_parse 0 indented_slide = normalizer_scan ascii_ucd indented_slide"
    then have "content (export_parse 0 indented_slide) = content (normalizer_scan ascii_ucd indented_slide)"
      by simp
    with e n show False by simp
  qed
qed


end
